theory Spec2Isabelle
  imports Main "HOL-Library.Word"
begin

unbundle bit_operations_syntax

section \<open>The jitter entropy collector (jitterentropy-base.c)\<close>

text \<open>
  A shallow embedding of the noise-source core: the loop shuffler, the time
  folding, the jitter measurement, the von-Neumann unbiaser, the pool stirrer,
  the generator, the FIPS 140-2 continuous test, the read entry point and the
  start-up health test.

  The header \<^verbatim>\<open>jitterentropy.h\<close> is not part of the sources at hand. What it
  declares is taken as a parameter of the model (the record \<open>env\<close>) or, for
  \<^verbatim>\<open>DATA_SIZE_BITS\<close>, \<^verbatim>\<open>rol64\<close> and the layout of \<^verbatim>\<open>struct rand_data\<close>, from the
  specification.
\<close>

subsection \<open>Data model\<close>

type_synonym u64 = "64 word"
type_synonym u32 = "32 word"
type_synonym u8 = "8 word"

text \<open>
  The build and the platform. \<open>TIME_ENTROPY_BITS\<close> is the macro of that name;
  \<open>nstime n\<close> is the value that the \<open>n\<close>-th call of \<^verbatim>\<open>jent_get_nstime\<close> stores
  (calls are counted from 0 in the field \<open>ticks\<close> of the \<open>world\<close>);
  \<open>fips_enabled\<close> is what \<^verbatim>\<open>jent_fips_enabled()\<close> returns; \<open>secure_memory\<close>
  says whether \<^verbatim>\<open>CONFIG_CRYPTO_CPU_JITTERENTROPY_SECURE_MEMORY\<close> is defined;
  \<open>big_endian\<close> is the byte order of the machine, which decides how the two
  halves of \<^verbatim>\<open>union c\<close> in \<^verbatim>\<open>jent_stir_pool\<close> make up a 64 bit value and which
  bytes \<^verbatim>\<open>memcpy\<close> reads from the pool.
\<close>

record env =
  TIME_ENTROPY_BITS :: nat
  nstime :: "nat \<Rightarrow> u64"
  fips_enabled :: bool
  secure_memory :: bool
  big_endian :: bool

text \<open>
  Modelled from the spec: \<^verbatim>\<open>DATA_SIZE_BITS\<close> is defined in the missing header;
  the specification gives its value, 64.
\<close>

definition DATA_SIZE_BITS :: nat where
  "DATA_SIZE_BITS = 64"

text \<open>
  Modelled from the spec: \<^verbatim>\<open>rol64\<close> is defined in the missing header; the
  specification calls it \<^verbatim>\<open>rotate_left_64\<close>.
\<close>

definition rol64 :: "u64 \<Rightarrow> nat \<Rightarrow> u64" where
  "rol64 x n = word_rotl n x"

text \<open>
  Modelled from the spec: \<^verbatim>\<open>struct rand_data\<close> is declared in the missing
  header. The fields are those the functions below use; the three flags are
  booleans, \<open>mem = None\<close> is the \<^verbatim>\<open>NULL\<close> pointer.
\<close>

record rand_data =
  data :: u64
  old_data :: u64
  prev_time :: u64
  fips_fail :: bool
  stir :: bool
  disable_unbias :: bool
  osr :: u32
  mem :: "u8 list option"
  memlocation :: u32
  memblocksize :: u32
  memblocks :: u32
  memaccessloops :: u32

text \<open>
  What lies outside the collector: \<open>ticks\<close> counts the calls of
  \<^verbatim>\<open>jent_get_nstime\<close> made so far, \<open>jitters\<close> the calls of
  \<^verbatim>\<open>jent_measure_jitter\<close>. Neither is a variable of the program; the second is
  there to count the work a call performs.
\<close>

record world =
  ticks :: nat
  jitters :: nat

definition jent_get_nstime :: "env \<Rightarrow> world \<Rightarrow> u64 \<times> world" where
  "jent_get_nstime E w = (nstime E (ticks w), w\<lparr>ticks := Suc (ticks w)\<rparr>)"

subsection \<open>Loop shuffler\<close>

text \<open>
  \<^verbatim>\<open>for (i = 0; (DATA_SIZE_BITS / bits) > i; i++) { shuffle ^= time & mask;
  time = time >> bits; }\<close>
\<close>

function shuffle_loop :: "nat \<Rightarrow> u64 \<Rightarrow> nat \<Rightarrow> u64 \<Rightarrow> u64 \<Rightarrow> u64" where
  "shuffle_loop bits msk i time shuffle =
     (if DATA_SIZE_BITS div bits > i
      then shuffle_loop bits msk (i + 1) (drop_bit bits time) (shuffle XOR (time AND msk))
      else shuffle)"
  by pat_completeness auto
termination
  by (relation "measure (\<lambda>(bits, msk, i, time, shuffle). DATA_SIZE_BITS div bits - i)") auto

text \<open>
  The collector pointer may be \<^verbatim>\<open>NULL\<close>: \<open>ecp = None\<close>. The mask is an
  \<^verbatim>\<open>unsigned int\<close>.
\<close>

definition jent_loop_shuffle ::
  "env \<Rightarrow> rand_data option \<Rightarrow> nat \<Rightarrow> nat \<Rightarrow> world \<Rightarrow> u64 \<times> world" where
  "jent_loop_shuffle E ecp bits min_bits w =
     (let msk = (push_bit bits 1 - 1 :: u32);
          (time, w1) = jent_get_nstime E w;
          time = (case ecp of None \<Rightarrow> time | Some ec \<Rightarrow> time XOR data ec);
          shuffle = shuffle_loop bits (ucast msk) 0 time 0
      in (shuffle + push_bit min_bits 1, w1))"

subsection \<open>Time folding\<close>

definition MAX_FOLD_LOOP_BIT :: nat where
  "MAX_FOLD_LOOP_BIT = 4"

definition MIN_FOLD_LOOP_BIT :: nat where
  "MIN_FOLD_LOOP_BIT = 0"

text \<open>
  The inner loop, one fold pass:
  \<^verbatim>\<open>for (i = 1; (DATA_SIZE_BITS / TIME_ENTROPY_BITS) >= i; i++) {
    tmp = time << (DATA_SIZE_BITS - (TIME_ENTROPY_BITS * i));
    tmp = tmp >> (DATA_SIZE_BITS - TIME_ENTROPY_BITS); new ^= tmp; }\<close>
\<close>

function fold_inner :: "nat \<Rightarrow> u64 \<Rightarrow> nat \<Rightarrow> u64 \<Rightarrow> u64" where
  "fold_inner teb time i new =
     (if DATA_SIZE_BITS div teb \<ge> i
      then fold_inner teb time (i + 1)
             (new XOR drop_bit (DATA_SIZE_BITS - teb)
                        (push_bit (DATA_SIZE_BITS - teb * i) time))
      else new)"
  by pat_completeness auto
termination
  by (relation "measure (\<lambda>(teb, time, i, new). Suc (DATA_SIZE_BITS div teb) - i)") auto

definition fold_pass :: "nat \<Rightarrow> u64 \<Rightarrow> u64" where
  "fold_pass teb time = fold_inner teb time 1 0"

text \<open>
  The outer loop: \<^verbatim>\<open>for (j = 0; j < fold_loop_cnt; j++) { new = 0; ... }\<close>.
  Every pass starts from \<open>new = 0\<close>, so only the last one is seen.
\<close>

function fold_outer :: "nat \<Rightarrow> u64 \<Rightarrow> nat \<Rightarrow> nat \<Rightarrow> u64 \<Rightarrow> u64" where
  "fold_outer teb time j cnt new =
     (if j < cnt then fold_outer teb time (j + 1) cnt (fold_pass teb time) else new)"
  by pat_completeness auto
termination
  by (relation "measure (\<lambda>(teb, time, j, cnt, new). cnt - j)") auto

text \<open>
  \<^verbatim>\<open>jent_fold_time(ec, time, &folded, loop_cnt)\<close>: the result is the pair of
  \<^verbatim>\<open>*folded\<close> and the returned loop count.
\<close>

definition jent_fold_time ::
  "env \<Rightarrow> rand_data option \<Rightarrow> u64 \<Rightarrow> u64 \<Rightarrow> world \<Rightarrow> (u64 \<times> u64) \<times> world" where
  "jent_fold_time E ecp time loop_cnt w =
     (let (shuffled, w1) = jent_loop_shuffle E ecp MAX_FOLD_LOOP_BIT MIN_FOLD_LOOP_BIT w;
          fold_loop_cnt = (if loop_cnt \<noteq> 0 then loop_cnt else shuffled);
          new = fold_outer (TIME_ENTROPY_BITS E) time 0 (unat fold_loop_cnt) 0
      in ((new, fold_loop_cnt), w1))"

subsection \<open>Memory access noise source\<close>

text \<open>
  \<^verbatim>\<open>for (i = 0; i < ec->memaccessloops; i++) { tmpval = ec->mem + ec->memlocation;
  *tmpval = (*tmpval + 1) & 0xff;
  ec->memlocation = ec->memlocation + ec->memblocksize - 1;
  ec->memlocation = ec->memlocation % wrap; }\<close>

  The buffer is a list of bytes. A write beyond its end and a remainder by
  \<open>wrap = 0\<close> are undefined in C; here the first leaves the list as it is
  and the second leaves \<open>memlocation\<close> as it is. Nothing the collector
  computes from the timer depends on either.
\<close>

function memaccess_loop :: "u32 \<Rightarrow> nat \<Rightarrow> rand_data \<Rightarrow> nat \<times> rand_data" where
  "memaccess_loop wrap i ec =
     (if i < unat (memaccessloops ec)
      then memaccess_loop wrap (i + 1)
             (ec\<lparr>mem := map_option
                          (\<lambda>m. m[unat (memlocation ec) := (m ! unat (memlocation ec)) + 1])
                          (mem ec),
                 memlocation := (memlocation ec + memblocksize ec - 1) mod wrap\<rparr>)
      else (i, ec))"
  by pat_completeness auto
termination
  by (relation "measure (\<lambda>(wrap, i, ec). unat (memaccessloops ec) - i)") auto

text \<open>
  The callers below pass a collector they dereference, so the test
  \<^verbatim>\<open>NULL == ec\<close> is not modelled; \<^verbatim>\<open>NULL == ec->mem\<close> is \<open>mem ec = None\<close>.
\<close>

definition jent_memaccess :: "rand_data \<Rightarrow> nat \<times> rand_data" where
  "jent_memaccess ec =
     (case mem ec of
        None \<Rightarrow> (0, ec)
      | Some m \<Rightarrow> memaccess_loop (memblocksize ec * memblocks ec) 0 ec)"

subsection \<open>Jitter measurement and von-Neumann unbiaser\<close>

definition jent_measure_jitter :: "env \<Rightarrow> rand_data \<Rightarrow> world \<Rightarrow> u64 \<times> rand_data \<times> world" where
  "jent_measure_jitter E ec w =
     (let (n, ec1) = jent_memaccess ec;
          (time, w1) = jent_get_nstime E w;
          delta = time - prev_time ec1;
          ec2 = ec1\<lparr>prev_time := time\<rparr>;
          ((folded, cnt), w2) = jent_fold_time E (Some ec2) delta 0 w1
      in (folded, ec2, w2\<lparr>jitters := Suc (jitters w2)\<rparr>))"

text \<open>
  \<^verbatim>\<open>do { a = jent_measure_jitter(ec); b = jent_measure_jitter(ec);
  if (a == b) continue; if (1 == a) return 1; else return 0; } while (1);\<close>

  The loop has no bound: \<open>None\<close> is the run that never leaves it.
\<close>

partial_function (option) unbias_loop ::
  "env \<Rightarrow> rand_data \<Rightarrow> world \<Rightarrow> (u64 \<times> rand_data \<times> world) option" where
  "unbias_loop E ec w =
     (case jent_measure_jitter E ec w of (a, ec1, w1) \<Rightarrow>
      case jent_measure_jitter E ec1 w1 of (b, ec2, w2) \<Rightarrow>
        if a = b then unbias_loop E ec2 w2
        else if 1 = a then Some (1, ec2, w2)
        else Some (0, ec2, w2))"

definition jent_unbiased_bit ::
  "env \<Rightarrow> rand_data \<Rightarrow> world \<Rightarrow> (u64 \<times> rand_data \<times> world) option" where
  "jent_unbiased_bit E ec w =
     (if disable_unbias ec then Some (jent_measure_jitter E ec w)
      else unbias_loop E ec w)"

subsection \<open>Stirring the pool\<close>

text \<open>
  \<^verbatim>\<open>union c { __u64 u64; __u32 u32[2]; }\<close>: the 64 bit value whose halves are
  \<open>u32[0] = u0\<close> and \<open>u32[1] = u1\<close>. On a little-endian machine \<open>u32[1]\<close> is the
  upper half.
\<close>

definition union_c_u64 :: "bool \<Rightarrow> u32 \<Rightarrow> u32 \<Rightarrow> u64" where
  "union_c_u64 be u0 u1 =
     (if be then push_bit 32 (ucast u0) OR ucast u1
      else push_bit 32 (ucast u1) OR ucast u0)"

text \<open>
  \<^verbatim>\<open>for (i = 0; i < DATA_SIZE_BITS; i++) {
    if ((entropy_collector->data >> i) & 0x0000000000000001) mixer.u64 ^= constant.u64;
    mixer.u64 = rol64(mixer.u64, 1); }\<close>
\<close>

function stir_loop :: "u64 \<Rightarrow> u64 \<Rightarrow> nat \<Rightarrow> u64 \<Rightarrow> u64" where
  "stir_loop d constant i mixer =
     (if i < DATA_SIZE_BITS
      then stir_loop d constant (i + 1)
             (rol64 (if drop_bit i d AND 1 \<noteq> 0 then mixer XOR constant else mixer) 1)
      else mixer)"
  by pat_completeness auto
termination
  by (relation "measure (\<lambda>(d, constant, i, mixer). DATA_SIZE_BITS - i)") auto

definition jent_stir_pool :: "env \<Rightarrow> rand_data \<Rightarrow> rand_data" where
  "jent_stir_pool E ec =
     (let constant = union_c_u64 (big_endian E) 0xefcdab89 0x67452301;
          mixer = union_c_u64 (big_endian E) 0x10325476 0x98badcfe;
          mixer = stir_loop (data ec) constant 0 mixer
      in ec\<lparr>data := data ec XOR mixer\<rparr>)"

subsection \<open>Generator of one 64 bit random number\<close>

text \<open>
  The loop bound \<^verbatim>\<open>(((DATA_SIZE_BITS - 1) / TIME_ENTROPY_BITS) + 1) * ec->osr\<close>,
  read anew at every test of the loop condition. The product is taken in the
  natural numbers; the counter \<open>k\<close> is an \<^verbatim>\<open>unsigned int\<close> and wraps around. A
  bound of \<open>2 ^ 32\<close> or more (an oversampling rate of \<open>2 ^ 26\<close> or more when
  \<open>TIME_ENTROPY_BITS = 1\<close>) is outside what the statements below cover: there
  the behaviour of the C loop depends on the type of \<^verbatim>\<open>DATA_SIZE_BITS\<close>, which
  the sources at hand do not show.
\<close>

definition gen_rounds :: "env \<Rightarrow> rand_data \<Rightarrow> nat" where
  "gen_rounds E ec = ((DATA_SIZE_BITS - 1) div TIME_ENTROPY_BITS E + 1) * unat (osr ec)"

text \<open>
  \<^verbatim>\<open>for (k = 0; k < ...; k++) { if (!k) jent_measure_jitter(ec);
  data = jent_unbiased_bit(ec); ec->data ^= data;
  ec->data = rol64(ec->data, TIME_ENTROPY_BITS); }\<close>

  \<^verbatim>\<open>jent_bit_count\<close> only keeps statistics in test builds and is left out.
\<close>

partial_function (option) gen_entropy_loop ::
  "env \<Rightarrow> u32 \<Rightarrow> rand_data \<Rightarrow> world \<Rightarrow> (rand_data \<times> world) option" where
  "gen_entropy_loop E k ec w =
     (if unat k < gen_rounds E ec
      then
        (case (if k = 0 then snd (jent_measure_jitter E ec w) else (ec, w)) of (ec1, w1) \<Rightarrow>
         case jent_unbiased_bit E ec1 w1 of
           None \<Rightarrow> None
         | Some (d, ec2, w2) \<Rightarrow>
             gen_entropy_loop E (k + 1)
               (ec2\<lparr>data := rol64 (data ec2 XOR d) (TIME_ENTROPY_BITS E)\<rparr>) w2)
      else Some (ec, w))"

definition jent_gen_entropy :: "env \<Rightarrow> rand_data \<Rightarrow> world \<Rightarrow> (rand_data \<times> world) option" where
  "jent_gen_entropy E ec w =
     (case gen_entropy_loop E 0 ec w of
        None \<Rightarrow> None
      | Some (ec1, w1) \<Rightarrow> Some (if stir ec1 then jent_stir_pool E ec1 else ec1, w1))"

subsection \<open>FIPS 140-2 continuous test\<close>

text \<open>The result is the returned \<^verbatim>\<open>int\<close> with the collector afterwards.\<close>

definition jent_fips_test :: "env \<Rightarrow> rand_data \<Rightarrow> world \<Rightarrow> (int \<times> rand_data \<times> world) option" where
  "jent_fips_test E ec w =
     (if \<not> fips_enabled E then Some (0, ec, w)
      else if fips_fail ec then Some (- 1, ec, w)
      else
        (case (if old_data ec = 0
               then jent_gen_entropy E (ec\<lparr>old_data := data ec\<rparr>) w
               else Some (ec, w)) of
           None \<Rightarrow> None
         | Some (ec1, w1) \<Rightarrow>
             if data ec1 = old_data ec1
             then Some (- 1, ec1\<lparr>fips_fail := True\<rparr>, w1)
             else Some (0, ec1\<lparr>old_data := data ec1\<rparr>, w1)))"

subsection \<open>Reading entropy\<close>

text \<open>
  The bytes of the pool in the order \<^verbatim>\<open>memcpy\<close> reads them from
  \<^verbatim>\<open>&entropy_collector->data\<close>.
\<close>

definition u64_bytes :: "bool \<Rightarrow> u64 \<Rightarrow> u8 list" where
  "u64_bytes be x =
     (let le = map (\<lambda>i. ucast (drop_bit (8 * i) x)) [0..<8]
      in if be then rev le else le)"

text \<open>
  The caller's buffer is a list of bytes and \<open>p\<close> the offset of the write
  pointer in it. The caller has to supply \<open>len\<close> bytes; a write beyond the end
  of the list is dropped.
\<close>

definition memcpy :: "u8 list \<Rightarrow> nat \<Rightarrow> u8 list \<Rightarrow> nat \<Rightarrow> u8 list" where
  "memcpy buf p src n = fold (\<lambda>i b. b[p + i := src ! i]) [0..<n] buf"

text \<open>
  \<^verbatim>\<open>while (0 < len) { jent_gen_entropy(ec); ret = jent_fips_test(ec);
  if (0 > ret) return ret; ... memcpy(p, &ec->data, tocopy); len -= tocopy;
  p += tocopy; }\<close>

  \<open>Inl ret\<close> is the \<^verbatim>\<open>return ret\<close> inside the loop, \<open>Inr\<close> the state in which
  the loop is left at \<open>len = 0\<close>.
\<close>

partial_function (option) read_loop ::
  "env \<Rightarrow> rand_data \<Rightarrow> world \<Rightarrow> u8 list \<Rightarrow> nat \<Rightarrow> nat \<Rightarrow>
     ((int + unit) \<times> rand_data \<times> world \<times> u8 list) option" where
  "read_loop E ec w buf p len =
     (if 0 < len
      then
        (case jent_gen_entropy E ec w of
           None \<Rightarrow> None
         | Some (ec1, w1) \<Rightarrow>
            (case jent_fips_test E ec1 w1 of
               None \<Rightarrow> None
             | Some (ret, ec2, w2) \<Rightarrow>
                 if 0 > ret then Some (Inl ret, ec2, w2, buf)
                 else
                   (let tocopy = (if DATA_SIZE_BITS div 8 < len
                                  then DATA_SIZE_BITS div 8 else len)
                    in read_loop E ec2 w2
                         (memcpy buf p (u64_bytes (big_endian E) (data ec2)) tocopy)
                         (p + tocopy) (len - tocopy))))
      else Some (Inr (), ec, w, buf))"

text \<open>
  \<open>ecp = None\<close> is the \<^verbatim>\<open>NULL\<close> collector. The function returns an \<^verbatim>\<open>int\<close>:
  \<^verbatim>\<open>return orig_len\<close> converts the \<^verbatim>\<open>size_t\<close> to a 32 bit signed value.
\<close>

definition jent_read_entropy ::
  "env \<Rightarrow> rand_data option \<Rightarrow> world \<Rightarrow> u8 list \<Rightarrow> nat \<Rightarrow>
     (int \<times> rand_data option \<times> world \<times> u8 list) option" where
  "jent_read_entropy E ecp w buf len =
     (case ecp of
        None \<Rightarrow> Some (- 2, None, w, buf)
      | Some ec \<Rightarrow>
         (case read_loop E ec w buf 0 len of
            None \<Rightarrow> None
          | Some (Inl ret, ec1, w1, buf1) \<Rightarrow> Some (ret, Some ec1, w1, buf1)
          | Some (Inr u, ec1, w1, buf1) \<Rightarrow>
              if secure_memory E
              then Some (sint (word_of_nat len :: 32 word), Some ec1, w1, buf1)
              else
                (case jent_gen_entropy E ec1 w1 of
                   None \<Rightarrow> None
                 | Some (ec2, w2) \<Rightarrow>
                     Some (sint (word_of_nat len :: 32 word), Some ec2, w2, buf1))))"

subsection \<open>Start-up health test\<close>

datatype init_error =
  ENOTIME | ECOARSETIME | ENOMONOTONIC | EMINVARIATION | EVARVAR | EMINVARVAR

record init_vars =
  delta_sum :: u64
  old_delta :: u64
  time_backwards :: int
  count_var :: int
  count_mod :: int

definition TESTLOOPCOUNT :: nat where
  "TESTLOOPCOUNT = 300"

definition CLEARCACHE :: nat where
  "CLEARCACHE = 100"

text \<open>
  One iteration of the loop of \<^verbatim>\<open>jent_entropy_init\<close> with loop counter \<open>i\<close>:
  \<open>Inl e\<close> is \<^verbatim>\<open>return e\<close>, \<open>Inr v\<close> the local variables at the end of the
  iteration (also after \<^verbatim>\<open>continue\<close>).
\<close>

definition init_body ::
  "env \<Rightarrow> nat \<Rightarrow> init_vars \<Rightarrow> world \<Rightarrow> (init_error + init_vars) \<times> world" where
  "init_body E i v w =
     (let (time, w1) = jent_get_nstime E w;
          (folded, w2) = jent_fold_time E None time (push_bit MIN_FOLD_LOOP_BIT 1) w1;
          (time2, w3) = jent_get_nstime E w2
      in if time = 0 \<or> time2 = 0 then (Inl ENOTIME, w3)
         else
           (let delta = time2 - time
            in if delta = 0 then (Inl ECOARSETIME, w3)
               else if word_of_nat (TIME_ENTROPY_BITS E) > delta then (Inl EMINVARIATION, w3)
               else if CLEARCACHE > i then (Inr v, w3)
               else
                 (let v1 = (if \<not> (time2 > time)
                            then v\<lparr>time_backwards := time_backwards v + 1\<rparr> else v);
                      v2 = (if delta mod 100 = 0
                            then v1\<lparr>count_mod := count_mod v1 + 1\<rparr> else v1);
                      v3 = (if i \<noteq> 0
                            then
                              (let v' = (if delta \<noteq> old_delta v2
                                         then v2\<lparr>count_var := count_var v2 + 1\<rparr> else v2)
                               in if delta > old_delta v'
                                  then v'\<lparr>delta_sum := delta_sum v' + (delta - old_delta v')\<rparr>
                                  else v'\<lparr>delta_sum := delta_sum v' + (old_delta v' - delta)\<rparr>)
                            else v2)
                  in (Inr (v3\<lparr>old_delta := delta\<rparr>), w3))))"

text \<open>\<^verbatim>\<open>for (i = 0; (TESTLOOPCOUNT + CLEARCACHE) > i; i++)\<close>\<close>

function init_loop ::
  "env \<Rightarrow> nat \<Rightarrow> init_vars \<Rightarrow> world \<Rightarrow> (init_error + init_vars) \<times> world" where
  "init_loop E i v w =
     (if TESTLOOPCOUNT + CLEARCACHE > i
      then
        (case init_body E i v w of
           (Inl e, w1) \<Rightarrow> (Inl e, w1)
         | (Inr v1, w1) \<Rightarrow> init_loop E (i + 1) v1 w1)
      else (Inr v, w))"
  by pat_completeness auto
termination
  by (relation "measure (\<lambda>(E, i, v, w). TESTLOOPCOUNT + CLEARCACHE - i)") auto

text \<open>
  The checks after the loop. \<^verbatim>\<open>!(delta_sum / TESTLOOPCOUNT) > TIME_ENTROPY_BITS\<close>
  is parsed as \<^verbatim>\<open>(!(delta_sum / TESTLOOPCOUNT)) > TIME_ENTROPY_BITS\<close>: the
  negation yields the \<^verbatim>\<open>int\<close> 0 or 1, which is then compared.
  \<open>Inr ()\<close> is \<^verbatim>\<open>return 0\<close>.
\<close>

definition init_checks :: "env \<Rightarrow> init_vars \<Rightarrow> init_error + unit" where
  "init_checks E v =
     (if 3 < time_backwards v then Inl ENOMONOTONIC
      else if delta_sum v = 0 then Inl EVARVAR
      else if (if delta_sum v div word_of_nat TESTLOOPCOUNT = 0 then 1 else 0 :: int)
                > int (TIME_ENTROPY_BITS E)
           then Inl EMINVARVAR
      else if int (TESTLOOPCOUNT div 10 * 9) < count_mod v then Inl ECOARSETIME
      else Inr ())"

definition init_vars0 :: init_vars where
  "init_vars0 = \<lparr>delta_sum = 0, old_delta = 0, time_backwards = 0, count_var = 0,
                 count_mod = 0\<rparr>"

definition jent_entropy_init :: "env \<Rightarrow> world \<Rightarrow> (init_error + unit) \<times> world" where
  "jent_entropy_init E w =
     (case init_loop E 0 init_vars0 w of
        (Inl e, w1) \<Rightarrow> (Inl e, w1)
      | (Inr v, w1) \<Rightarrow> (init_checks E v, w1))"

subsection \<open>Helpers for stating the properties\<close>

text \<open>
  The collector and the world after \<open>n\<close> jitter measurements in a row, and the
  \<open>n\<close>-th sample drawn from a state (counted from 0).
\<close>

fun after_jitters :: "env \<Rightarrow> nat \<Rightarrow> rand_data \<Rightarrow> world \<Rightarrow> rand_data \<times> world" where
  "after_jitters E 0 ec w = (ec, w)"
| "after_jitters E (Suc n) ec w =
     (case jent_measure_jitter E ec w of (d, ec1, w1) \<Rightarrow> after_jitters E n ec1 w1)"

definition sample :: "env \<Rightarrow> rand_data \<Rightarrow> world \<Rightarrow> nat \<Rightarrow> u64" where
  "sample E ec w n =
     (case after_jitters E n ec w of (ec1, w1) \<Rightarrow> fst (jent_measure_jitter E ec1 w1))"

text \<open>
  \<open>n\<close> rounds of the generator loop when unbiasing is disabled: a measurement,
  then the XOR into the pool and the rotation.
\<close>

fun plain_rounds :: "env \<Rightarrow> nat \<Rightarrow> rand_data \<Rightarrow> world \<Rightarrow> rand_data \<times> world" where
  "plain_rounds E 0 ec w = (ec, w)"
| "plain_rounds E (Suc n) ec w =
     (case jent_measure_jitter E ec w of (d, ec1, w1) \<Rightarrow>
        plain_rounds E n (ec1\<lparr>data := rol64 (data ec1 XOR d) (TIME_ENTROPY_BITS E)\<rparr>) w1)"

text \<open>
  The fields of the collector that no jitter measurement writes.
\<close>

definition config :: "rand_data \<Rightarrow> u64 \<times> bool \<times> bool \<times> bool \<times> u32" where
  "config ec = (old_data ec, fips_fail ec, stir ec, disable_unbias ec, osr ec)"

text \<open>
  The mixer that \<^verbatim>\<open>jent_stir_pool\<close> would compute from a zero start value, as a
  function of the pool; \<open>pick\<close> is the constant when the bit is set and zero
  otherwise.
\<close>

definition stir_mix :: "u64 \<Rightarrow> u64 \<Rightarrow> u64" where
  "stir_mix c d = stir_loop d c 0 0"

definition pick :: "bool \<Rightarrow> u64 \<Rightarrow> u64" where
  "pick b c = (if b then c else 0)"

text \<open>The pool value that the stir step turns into zero.\<close>

definition stir_zero :: "env \<Rightarrow> u64" where
  "stir_zero E = (if big_endian E then 0x0022446688AACCEE else 0x88AACCEE00224466)"

subsection \<open>Example platforms and collectors\<close>

text \<open>A collector without memory buffer, as allocated with \<^verbatim>\<open>JENT_DISABLE_MEMORY_ACCESS\<close>.\<close>

definition collector :: "u64 \<Rightarrow> u64 \<Rightarrow> u64 \<Rightarrow> bool \<Rightarrow> bool \<Rightarrow> bool \<Rightarrow> rand_data" where
  "collector d od pt ff st du =
     \<lparr>data = d, old_data = od, prev_time = pt, fips_fail = ff, stir = st,
      disable_unbias = du, osr = 1, mem = None, memlocation = 0, memblocksize = 0,
      memblocks = 0, memaccessloops = 0\<rparr>"

definition world0 :: world where
  "world0 = \<lparr>ticks = 0, jitters = 0\<rparr>"

text \<open>A build with the given \<open>TIME_ENTROPY_BITS\<close> on a little-endian machine.\<close>

definition platform :: "nat \<Rightarrow> (nat \<Rightarrow> u64) \<Rightarrow> bool \<Rightarrow> bool \<Rightarrow> env" where
  "platform teb timer fips secure =
     \<lparr>TIME_ENTROPY_BITS = teb, nstime = timer, fips_enabled = fips,
      secure_memory = secure, big_endian = False\<rparr>"

text \<open>A timer that stands still, and one that advances by 3 ns per reading.\<close>

definition stuck_timer :: "nat \<Rightarrow> u64" where
  "stuck_timer n = 42"

definition steady_timer :: "nat \<Rightarrow> u64" where
  "steady_timer n = word_of_nat (3 * n + 1000)"

text \<open>
  A timer whose reading grows with the square of the number of readings.
\<close>

definition square_timer :: "nat \<Rightarrow> u64" where
  "square_timer n = word_of_nat (n * n + 100)"

text \<open>
  A timer for the start-up test, which reads the clock three times per
  iteration: the time spans measured are 9 ns and 8 ns in turn.
\<close>

definition wobble_timer :: "nat \<Rightarrow> u64" where
  "wobble_timer n = word_of_nat (4 * n + (if n mod 6 = 2 then 1 else 0) + 1)"

subsection \<open>The fold as the specification words it\<close>

text \<open>
  The XOR, over \<open>i = 0 .. N - 1\<close> with \<open>N = 64 / TEB\<close>, of
  \<open>(t >> (TEB * i)) & ((1 << TEB) - 1)\<close>.
\<close>

definition fold_window :: "nat \<Rightarrow> u64 \<Rightarrow> nat \<Rightarrow> u64" where
  "fold_window teb t i = drop_bit (teb * i) t AND mask teb"

definition fold_spec :: "nat \<Rightarrow> u64 \<Rightarrow> u64" where
  "fold_spec teb t = fold (\<lambda>i acc. acc XOR fold_window teb t i) [0..<64 div teb] 0"

declare shuffle_loop.simps [simp del] fold_inner.simps [simp del] fold_outer.simps [simp del]
  memaccess_loop.simps [simp del] stir_loop.simps [simp del] init_loop.simps [simp del]

section \<open>Properties\<close>

subsection \<open>The fold pass\<close>

lemma fold_window_shift:
  assumes "1 \<le> i" "i \<le> DATA_SIZE_BITS div teb"
  shows "drop_bit (DATA_SIZE_BITS - teb) (push_bit (DATA_SIZE_BITS - teb * i) (t::u64))
         = fold_window teb t (i - 1)"
proof -
  have "teb * i \<le> teb * (64 div teb)" using assms(2) by (simp add: DATA_SIZE_BITS_def)
  also have "\<dots> \<le> 64" by simp
  finally have ti: "teb * i \<le> 64" .
  obtain k where k: "i = Suc k" using assms(1) by (cases i) auto
  have tl: "teb \<le> 64" using ti k by simp
  show ?thesis
    unfolding fold_window_def DATA_SIZE_BITS_def
    apply (rule bit_word_eqI)
    using ti tl k
    apply (auto simp add: bit_simps algebra_simps)
    done
qed

lemma fold_inner_spec:
  "1 \<le> i \<Longrightarrow> i \<le> Suc (DATA_SIZE_BITS div teb) \<Longrightarrow>
   fold_inner teb t i new = fold (\<lambda>k acc. acc XOR fold_window teb t k) [i - 1..<DATA_SIZE_BITS div teb] new"
proof (induction teb t i new rule: fold_inner.induct)
  case (1 teb time i new)
  show ?case
  proof (cases "i \<le> DATA_SIZE_BITS div teb")
    case True
    have up: "[i - 1..<DATA_SIZE_BITS div teb] = (i - 1) # [Suc (i - 1)..<DATA_SIZE_BITS div teb]"
      using True 1(2) by (intro upt_conv_Cons) simp
    have up': "Suc (i - 1) = i" using 1(2) by simp
    show ?thesis
      using True 1 
      apply (subst fold_inner.simps)
      apply (subst up)
      apply (simp add: fold_window_shift up')
      done
  next
    case False
    then show ?thesis using 1(3)
      by (subst fold_inner.simps) simp
  qed
qed

lemma fold_pass_spec: "fold_pass teb t = fold_spec teb t"
  by (simp add: fold_pass_def fold_spec_def fold_inner_spec DATA_SIZE_BITS_def)

lemma fold_windows_take_bit:
  "take_bit teb new = new \<Longrightarrow>
   take_bit teb (fold (\<lambda>k acc. acc XOR fold_window teb t k) xs new)
     = fold (\<lambda>k acc. acc XOR fold_window teb t k) xs new"
proof (induction xs arbitrary: new)
  case Nil
  then show ?case by simp
next
  case (Cons x xs)
  have "take_bit teb (new XOR fold_window teb t x) = new XOR fold_window teb t x"
    using Cons.prems by (simp add: fold_window_def take_bit_eq_mask bit.conj_xor_distrib2)
  then show ?case using Cons.IH by simp
qed

lemma fold_pass_take_bit: "take_bit teb (fold_pass teb t) = fold_pass teb t"
  unfolding fold_pass_spec fold_spec_def by (rule fold_windows_take_bit) simp

lemma fold_pass_bound: "unat (fold_pass teb t) < 2 ^ teb"
proof -
  have "unat (take_bit teb (fold_pass teb t)) < 2 ^ teb"
    by (simp add: unsigned_take_bit_eq)
  then show ?thesis by (simp add: fold_pass_take_bit)
qed

subsection \<open>Shuffler, fold and measurement\<close>

lemma fold_outer_eq: "fold_outer teb t j cnt new = (if j < cnt then fold_pass teb t else new)"
  by (induction teb t j cnt new rule: fold_outer.induct) (subst fold_outer.simps, simp)

lemma shuffle_loop_take_bit:
  "take_bit n sh = sh \<Longrightarrow>
   take_bit n (shuffle_loop bits (mask n) i t sh) = shuffle_loop bits (mask n) i t sh"
proof (induction bits "mask n :: u64" i t sh rule: shuffle_loop.induct)
  case (1 bits i time shuffle)
  show ?case
    apply (subst (1 2) shuffle_loop.simps)
    using 1 by (simp add: take_bit_eq_mask bit.conj_xor_distrib2)
qed

lemma jent_loop_shuffle_world [simp]:
  "snd (jent_loop_shuffle E ecp bits mb w) = w\<lparr>ticks := Suc (ticks w)\<rparr>"
  by (simp add: jent_loop_shuffle_def jent_get_nstime_def Let_def split: prod.splits)

lemma shuffle_fold_bounds:
  "1 \<le> unat (fst (jent_loop_shuffle E ecp MAX_FOLD_LOOP_BIT MIN_FOLD_LOOP_BIT w)) \<and>
   unat (fst (jent_loop_shuffle E ecp MAX_FOLD_LOOP_BIT MIN_FOLD_LOOP_BIT w)) \<le> 16"
proof -
  define t where "t = (case ecp of None \<Rightarrow> nstime E (ticks w) | Some ec \<Rightarrow> nstime E (ticks w) XOR data ec)"
  define s where "s = shuffle_loop 4 15 0 t 0"
  have m: "(15 :: u64) = mask 4"
    by (simp add: mask_eq_exp_minus_1)
  have "take_bit 4 s = s" unfolding s_def m by (rule shuffle_loop_take_bit) simp
  moreover have "unat (take_bit 4 s) < 2 ^ 4" by (simp only: unsigned_take_bit_eq take_bit_nat_less_exp)
  ultimately have "unat s < 16" by simp
  then have "unat (s + 1) = unat s + 1"
    by (simp add: unat_word_ariths)
  with \<open>unat s < 16\<close> have "1 \<le> unat (s + 1) \<and> unat (s + 1) \<le> 16" by simp
  then show ?thesis
    by (simp add: jent_loop_shuffle_def jent_get_nstime_def Let_def MAX_FOLD_LOOP_BIT_def
        MIN_FOLD_LOOP_BIT_def s_def t_def split: prod.splits)
qed

lemma shuffle_fold_range:
  "fst (jent_loop_shuffle E ecp MAX_FOLD_LOOP_BIT MIN_FOLD_LOOP_BIT w) \<noteq> 0"
  using shuffle_fold_bounds [of E ecp w] by (auto simp add: unat_gt_0 Suc_le_eq)

lemma jent_fold_time_eq:
  "jent_fold_time E ecp t c w =
     ((fold_pass (TIME_ENTROPY_BITS E) t,
       if c \<noteq> 0 then c else fst (jent_loop_shuffle E ecp MAX_FOLD_LOOP_BIT MIN_FOLD_LOOP_BIT w)),
      w\<lparr>ticks := Suc (ticks w)\<rparr>)"
proof -
  obtain sh w1 where sh: "jent_loop_shuffle E ecp MAX_FOLD_LOOP_BIT MIN_FOLD_LOOP_BIT w = (sh, w1)"
    by (cases "jent_loop_shuffle E ecp MAX_FOLD_LOOP_BIT MIN_FOLD_LOOP_BIT w")
  have w1: "w1 = w\<lparr>ticks := Suc (ticks w)\<rparr>"
    using jent_loop_shuffle_world [of E ecp MAX_FOLD_LOOP_BIT MIN_FOLD_LOOP_BIT w] sh by simp
  have nz: "sh \<noteq> 0" using shuffle_fold_range [of E ecp w] sh by simp
  have pos: "0 < unat (if c \<noteq> 0 then c else sh)"
    using nz by (simp add: unat_gt_0)
  show ?thesis
    using pos by (simp add: jent_fold_time_def sh w1 fold_outer_eq)
qed

text \<open>
  C6. For every 64 bit value \<open>t\<close>, one fold pass computes the XOR of the
  \<open>N = 64 / TEB\<close> windows \<open>(t >> (TEB * i)) & ((1 << TEB) - 1)\<close>,
  \<open>i = 0 .. N - 1\<close>, and this is what \<^verbatim>\<open>jent_fold_time\<close> stores in
  \<^verbatim>\<open>*folded\<close>, for every collector, loop count and state of the timer: the
  folded result is below \<open>2 ^ TEB\<close>.
\<close>

theorem fold_time_correct:
  "0 < TIME_ENTROPY_BITS E \<Longrightarrow>
   fold_pass (TIME_ENTROPY_BITS E) t = fold_spec (TIME_ENTROPY_BITS E) t \<and>
   fst (fst (jent_fold_time E ecp t c w)) = fold_spec (TIME_ENTROPY_BITS E) t \<and>
   unat (fst (fst (jent_fold_time E ecp t c w))) < 2 ^ TIME_ENTROPY_BITS E"
  using fold_pass_spec [of "TIME_ENTROPY_BITS E" t] fold_pass_bound [of "TIME_ENTROPY_BITS E" t]
  by (simp add: jent_fold_time_eq)

theorem fold_time_correct_witness:
  "0 < TIME_ENTROPY_BITS (platform 3 steady_timer False False) \<and>
   fold_spec 3 0x1234 = 2 \<and>
   fst (fst (jent_fold_time (platform 3 steady_timer False False)
               (Some (collector 5 0 0 False True False)) 0x1234 0 world0)) = 2 \<and>
   unat (fst (fst (jent_fold_time (platform 3 steady_timer False False)
                     (Some (collector 5 0 0 False True False)) 0x1234 0 world0))) < 2 ^ 3"
  using fold_time_correct [of "platform 3 steady_timer False False" "0x1234"
      "Some (collector 5 0 0 False True False)" 0 world0]
  by (simp add: platform_def fold_spec_def fold_window_def upt_rec mask_eq_exp_minus_1)

lemma memaccess_loop_fields:
  "data (snd (memaccess_loop wrap i ec)) = data ec \<and>
   old_data (snd (memaccess_loop wrap i ec)) = old_data ec \<and>
   prev_time (snd (memaccess_loop wrap i ec)) = prev_time ec \<and>
   fips_fail (snd (memaccess_loop wrap i ec)) = fips_fail ec \<and>
   stir (snd (memaccess_loop wrap i ec)) = stir ec \<and>
   disable_unbias (snd (memaccess_loop wrap i ec)) = disable_unbias ec \<and>
   osr (snd (memaccess_loop wrap i ec)) = osr ec"
proof (induction wrap i ec rule: memaccess_loop.induct)
  case (1 wrap i ec)
  show ?case
  proof (cases "i < unat (memaccessloops ec)")
    case True
    from 1 [OF True] show ?thesis
      by (subst (1 2 3 4 5 6 7) memaccess_loop.simps) (simp add: True)
  next
    case False
    then show ?thesis
      by (subst (1 2 3 4 5 6 7) memaccess_loop.simps) simp
  qed
qed

lemma jent_memaccess_fields [simp]:
  "data (snd (jent_memaccess ec)) = data ec"
  "old_data (snd (jent_memaccess ec)) = old_data ec"
  "prev_time (snd (jent_memaccess ec)) = prev_time ec"
  "fips_fail (snd (jent_memaccess ec)) = fips_fail ec"
  "stir (snd (jent_memaccess ec)) = stir ec"
  "disable_unbias (snd (jent_memaccess ec)) = disable_unbias ec"
  "osr (snd (jent_memaccess ec)) = osr ec"
  using memaccess_loop_fields [of "memblocksize ec * memblocks ec" 0 ec]
  by (simp_all add: jent_memaccess_def split: option.splits)

lemma jent_measure_jitter_eq:
  "jent_measure_jitter E ec w =
     (fold_pass (TIME_ENTROPY_BITS E) (nstime E (ticks w) - prev_time ec),
      (snd (jent_memaccess ec))\<lparr>prev_time := nstime E (ticks w)\<rparr>,
      w\<lparr>ticks := ticks w + 2, jitters := Suc (jitters w)\<rparr>)"
proof -
  obtain n ec1 where m: "jent_memaccess ec = (n, ec1)" by (cases "jent_memaccess ec")
  have p: "prev_time ec1 = prev_time ec" using jent_memaccess_fields(3) [of ec] m by simp
  show ?thesis
    by (simp add: jent_measure_jitter_def jent_get_nstime_def jent_fold_time_eq m p)
qed

subsection \<open>The von-Neumann unbiaser\<close>

lemma unbias_loop_pair:
  assumes "jent_measure_jitter E ec w = (a, ec1, w1)"
    and "jent_measure_jitter E ec1 w1 = (b, ec2, w2)"
  shows "unbias_loop E ec w =
           (if a = b then unbias_loop E ec2 w2 else Some (if a = 1 then 1 else 0, ec2, w2))"
  by (subst unbias_loop.simps) (auto simp add: assms)

lemma fold_pass_bit:
  "fold_pass 1 t = 0 \<or> fold_pass 1 t = 1"
proof -
  have "unat (fold_pass 1 t) < 2" using fold_pass_bound [of 1 t] by simp
  then have "unat (fold_pass 1 t) = 0 \<or> unat (fold_pass 1 t) = 1" by arith
  then show ?thesis by (auto simp add: word_unat_eq_iff)
qed

lemma memaccess_no_mem: "mem ec = None \<Longrightarrow> jent_memaccess ec = (0, ec)"
  by (simp add: jent_memaccess_def)

lemma measure_collector:
  "jent_measure_jitter E (collector d od pt ff st du) w =
     (fold_pass (TIME_ENTROPY_BITS E) (nstime E (ticks w) - pt),
      collector d od (nstime E (ticks w)) ff st du,
      w\<lparr>ticks := ticks w + 2, jitters := Suc (jitters w)\<rparr>)"
  by (simp add: collector_def jent_measure_jitter_eq memaccess_no_mem)

lemma fold_pass_1_3: "fold_pass (Suc 0) 3 = 0"
  by (simp add: fold_pass_def fold_inner.simps DATA_SIZE_BITS_def)
lemma fold_pass_1_4: "fold_pass (Suc 0) 4 = 1"
  by (simp add: fold_pass_def fold_inner.simps DATA_SIZE_BITS_def)
lemma fold_pass_2_2: "fold_pass 2 2 = 2"
  by (simp add: fold_pass_def fold_inner.simps DATA_SIZE_BITS_def)
lemma fold_pass_2_4: "fold_pass 2 4 = 1"
  by (simp add: fold_pass_def fold_inner.simps DATA_SIZE_BITS_def)


subsection \<open>Termination of the unbiaser and of a generation pass\<close>

lemma after_jitters_world:
  "snd (after_jitters E n ec w) = w\<lparr>ticks := ticks w + 2 * n, jitters := jitters w + n\<rparr>"
  by (induction n arbitrary: ec w) (simp_all add: jent_measure_jitter_eq)

lemma sample_0: "jent_measure_jitter E ec w = (a, ec1, w1) \<Longrightarrow> sample E ec w 0 = a"
  by (simp add: sample_def)

lemma sample_Suc:
  "jent_measure_jitter E ec w = (a, ec1, w1) \<Longrightarrow> sample E ec w (Suc n) = sample E ec1 w1 n"
  by (simp add: sample_def)

lemma after_jitters_Suc:
  "jent_measure_jitter E ec w = (a, ec1, w1) \<Longrightarrow>
   after_jitters E (Suc n) ec w = after_jitters E n ec1 w1"
  by simp

lemma unbias_loop_first_diff:
  "(\<And>m. m < n \<Longrightarrow> sample E ec w (2 * m) = sample E ec w (2 * m + 1)) \<Longrightarrow>
   sample E ec w (2 * n) \<noteq> sample E ec w (2 * n + 1) \<Longrightarrow>
   unbias_loop E ec w =
     Some (if sample E ec w (2 * n) = 1 then 1 else 0, after_jitters E (2 * n + 2) ec w)"
proof (induction n arbitrary: ec w)
  case 0
  obtain a ec1 w1 where m1: "jent_measure_jitter E ec w = (a, ec1, w1)"
    by (cases "jent_measure_jitter E ec w")
  obtain b ec2 w2 where m2: "jent_measure_jitter E ec1 w1 = (b, ec2, w2)"
    by (cases "jent_measure_jitter E ec1 w1")
  have "sample E ec w 0 = a" "sample E ec w 1 = b"
    using m1 m2 by (simp_all add: sample_def)
  with 0 show ?case
    using m1 m2 by (simp add: unbias_loop_pair [OF m1 m2])
next
  case (Suc n)
  obtain a ec1 w1 where m1: "jent_measure_jitter E ec w = (a, ec1, w1)"
    by (cases "jent_measure_jitter E ec w")
  obtain b ec2 w2 where m2: "jent_measure_jitter E ec1 w1 = (b, ec2, w2)"
    by (cases "jent_measure_jitter E ec1 w1")
  have shift: "sample E ec w (Suc (Suc k)) = sample E ec2 w2 k" for k
    using m1 m2 by (simp add: sample_def)
  have ab: "a = b"
    using Suc.prems(1) [of 0] m1 m2 by (simp add: sample_def)
  have eq: "sample E ec2 w2 (2 * m) = sample E ec2 w2 (2 * m + 1)" if "m < n" for m
    using Suc.prems(1) [of "Suc m"] that by (simp add: shift)
  have ne: "sample E ec2 w2 (2 * n) \<noteq> sample E ec2 w2 (2 * n + 1)"
    using Suc.prems(2) by (simp add: shift)
  have "unbias_loop E ec w = unbias_loop E ec2 w2"
    using ab by (simp add: unbias_loop_pair [OF m1 m2])
  also have "\<dots> = Some (if sample E ec2 w2 (2 * n) = 1 then 1 else 0,
                         after_jitters E (2 * n + 2) ec2 w2)"
    using Suc.IH [of ec2 w2] eq ne by blast
  finally show ?case
    using m1 m2 by (simp add: shift)
qed

lemma unbias_loop_Some_diff:
  assumes "unbias_loop E ec w = Some y"
  shows "\<exists>n. sample E ec w (2 * n) \<noteq> sample E ec w (2 * n + 1)"
proof (rule unbias_loop.raw_induct
    [where P = "\<lambda>E ec w y. \<exists>n. sample E ec w (2 * n) \<noteq> sample E ec w (2 * n + 1)", OF _ assms])
  fix f E ec w and y :: "u64 \<times> rand_data \<times> world"
  assume IH: "\<And>E ec w y. f E ec w = Some y \<Longrightarrow>
                \<exists>n. sample E ec w (2 * n) \<noteq> sample E ec w (2 * n + 1)"
    and body: "(case jent_measure_jitter E ec w of
                 (a, ec1, w1) \<Rightarrow>
                   case jent_measure_jitter E ec1 w1 of
                     (b, ec2, w2) \<Rightarrow>
                       if a = b then f E ec2 w2
                       else if 1 = a then Some (1, ec2, w2) else Some (0, ec2, w2)) = Some y"
  obtain a ec1 w1 where m1: "jent_measure_jitter E ec w = (a, ec1, w1)"
    by (cases "jent_measure_jitter E ec w")
  obtain b ec2 w2 where m2: "jent_measure_jitter E ec1 w1 = (b, ec2, w2)"
    by (cases "jent_measure_jitter E ec1 w1")
  have shift: "sample E ec w (Suc (Suc k)) = sample E ec2 w2 k" for k
    using m1 m2 by (simp add: sample_def)
  show "\<exists>n. sample E ec w (2 * n) \<noteq> sample E ec w (2 * n + 1)"
  proof (cases "a = b")
    case True
    with body have "f E ec2 w2 = Some y" by (simp add: m1 m2)
    from IH [OF this] obtain n where
      "sample E ec2 w2 (2 * n) \<noteq> sample E ec2 w2 (2 * n + 1)" by blast
    then have "sample E ec w (2 * Suc n) \<noteq> sample E ec w (2 * Suc n + 1)"
      by (simp add: shift)
    then show ?thesis by blast
  next
    case False
    then have "sample E ec w (2 * 0) \<noteq> sample E ec w (2 * 0 + 1)"
      using m1 m2 by (simp add: sample_def)
    then show ?thesis by blast
  qed
qed

lemma unbias_loop_returns_iff:
  "unbias_loop E ec w \<noteq> None \<longleftrightarrow>
     (\<exists>n. sample E ec w (2 * n) \<noteq> sample E ec w (2 * n + 1))"
proof
  assume "unbias_loop E ec w \<noteq> None"
  then show "\<exists>n. sample E ec w (2 * n) \<noteq> sample E ec w (2 * n + 1)"
    using unbias_loop_Some_diff by blast
next
  assume ex: "\<exists>n. sample E ec w (2 * n) \<noteq> sample E ec w (2 * n + 1)"
  define n where "n = (LEAST n. sample E ec w (2 * n) \<noteq> sample E ec w (2 * n + 1))"
  have ne: "sample E ec w (2 * n) \<noteq> sample E ec w (2 * n + 1)"
    unfolding n_def using ex by (rule LeastI_ex)
  have eq: "sample E ec w (2 * m) = sample E ec w (2 * m + 1)" if "m < n" for m
    using not_less_Least [of m "\<lambda>n. sample E ec w (2 * n) \<noteq> sample E ec w (2 * n + 1)"] that
    unfolding n_def by blast
  show "unbias_loop E ec w \<noteq> None"
    using unbias_loop_first_diff [of n E ec w] eq ne by simp
qed

lemma config_simps [simp]:
  "config (ec\<lparr>data := d\<rparr>) = config ec"
  "config (ec\<lparr>prev_time := t\<rparr>) = config ec"
  by (simp_all add: config_def)

lemma config_fields:
  "config a = config b \<Longrightarrow>
   old_data a = old_data b \<and> fips_fail a = fips_fail b \<and> stir a = stir b \<and>
   disable_unbias a = disable_unbias b \<and> osr a = osr b"
  by (simp add: config_def)

lemma config_memaccess [simp]: "config (snd (jent_memaccess ec)) = config ec"
  by (simp add: config_def)

lemma measure_config:
  "jent_measure_jitter E ec w = (a, ec1, w1) \<Longrightarrow> config ec1 = config ec \<and> data ec1 = data ec"
  by (auto simp add: jent_measure_jitter_eq)

lemma gen_rounds_config: "config a = config b \<Longrightarrow> gen_rounds E a = gen_rounds E b"
  by (simp add: gen_rounds_def config_def)

lemma after_jitters_config:
  "config (fst (after_jitters E n ec w)) = config ec \<and> data (fst (after_jitters E n ec w)) = data ec"
proof (induction n arbitrary: ec w)
  case 0
  show ?case by simp
next
  case (Suc n)
  obtain a ec1 w1 where m: "jent_measure_jitter E ec w = (a, ec1, w1)"
    by (cases "jent_measure_jitter E ec w")
  show ?case using Suc [of ec1 w1] measure_config [OF m] by (simp add: m)
qed

lemma unbias_loop_Some:
  assumes "unbias_loop E ec w = Some (d, ec', w')"
  shows "\<exists>n. (ec', w') = after_jitters E (2 * n + 2) ec w \<and> (d = 0 \<or> d = 1)"
proof -
  let ?D = "\<lambda>n. sample E ec w (2 * n) \<noteq> sample E ec w (2 * n + 1)"
  have ex: "\<exists>n. ?D n" using unbias_loop_Some_diff [OF assms] .
  define n where "n = (LEAST n. ?D n)"
  have ne: "?D n" unfolding n_def using ex by (rule LeastI_ex)
  have eq: "sample E ec w (2 * m) = sample E ec w (2 * m + 1)" if "m < n" for m
    using not_less_Least [of m ?D] that unfolding n_def by blast
  have "unbias_loop E ec w =
     Some (if sample E ec w (2 * n) = 1 then 1 else 0, after_jitters E (2 * n + 2) ec w)"
    using unbias_loop_first_diff [of n E ec w] eq ne by blast
  with assms have "(ec', w') = after_jitters E (2 * n + 2) ec w"
    and "d = (if sample E ec w (2 * n) = 1 then 1 else 0)"
    by (simp_all del: after_jitters.simps)
  then show ?thesis by (intro exI [of _ n]) (simp del: after_jitters.simps)
qed

lemma unbiased_bit_Some:
  assumes "jent_unbiased_bit E ec w = Some (d, ec', w')"
  shows "\<exists>n. 0 < n \<and> (ec', w') = after_jitters E n ec w"
proof (cases "disable_unbias ec")
  case True
  with assms have "(ec', w') = after_jitters E 1 ec w"
    by (cases "jent_measure_jitter E ec w") (auto simp add: jent_unbiased_bit_def)
  then show ?thesis by (intro exI [of _ 1]) simp
next
  case False
  with assms have "unbias_loop E ec w = Some (d, ec', w')"
    by (simp add: jent_unbiased_bit_def)
  from unbias_loop_Some [OF this] obtain n where
    "(ec', w') = after_jitters E (2 * n + 2) ec w" by blast
  then show ?thesis by (intro exI [of _ "2 * n + 2"]) simp
qed

lemma unbiased_bit_config:
  assumes "jent_unbiased_bit E ec w = Some (d, ec', w')"
  shows "config ec' = config ec \<and> data ec' = data ec \<and> jitters w < jitters w'"
proof -
  from unbiased_bit_Some [OF assms] obtain n where
    n: "0 < n" "(ec', w') = after_jitters E n ec w" by blast
  have "ec' = fst (after_jitters E n ec w)" "w' = snd (after_jitters E n ec w)"
    using n(2) by (metis fst_conv, metis snd_conv)
  then show ?thesis
    using after_jitters_config [of E n ec w] n(1) by (simp add: after_jitters_world)
qed

lemma stir_pool_config [simp]: "config (jent_stir_pool E ec) = config ec"
  by (simp add: jent_stir_pool_def Let_def)

lemma stir_pool_prev_time [simp]: "prev_time (jent_stir_pool E ec) = prev_time ec"
  by (simp add: jent_stir_pool_def Let_def)

lemma gen_entropy_loop_config:
  assumes "gen_entropy_loop E k ec w = Some (ec', w')"
  shows "config ec' = config ec"
proof -
  have "config (fst (ec', w')) = config ec"
proof (rule gen_entropy_loop.raw_induct
    [where P = "\<lambda>E k ec w y. config (fst y) = config ec", OF _ assms])
  fix f E k ec w and y :: "rand_data \<times> world"
  assume IH: "\<And>E k ec w y. f E k ec w = Some y \<Longrightarrow> config (fst y) = config ec"
    and body: "(if unat k < gen_rounds E ec
      then case if k = 0 then snd (jent_measure_jitter E ec w) else (ec, w) of
           (ec1, w1) \<Rightarrow>
             case jent_unbiased_bit E ec1 w1 of None \<Rightarrow> None
             | Some (d, ec2, w2) \<Rightarrow>
                 f E (k + 1) (ec2\<lparr>data := rol64 (data ec2 XOR d) (TIME_ENTROPY_BITS E)\<rparr>) w2
      else Some (ec, w)) = Some y"
  show "config (fst y) = config ec"
  proof (cases "unat k < gen_rounds E ec")
    case False
    with body show ?thesis by auto
  next
    case True
    obtain ec1 w1 where p: "(if k = 0 then snd (jent_measure_jitter E ec w) else (ec, w)) = (ec1, w1)"
      by (cases "if k = 0 then snd (jent_measure_jitter E ec w) else (ec, w)")
    have c1: "config ec1 = config ec"
      using p measure_config [of E ec w]
      by (cases "jent_measure_jitter E ec w") (auto split: if_splits)
    from body True p obtain d ec2 w2 where
      u: "jent_unbiased_bit E ec1 w1 = Some (d, ec2, w2)" and
      r: "f E (k + 1) (ec2\<lparr>data := rol64 (data ec2 XOR d) (TIME_ENTROPY_BITS E)\<rparr>) w2 = Some y"
      by (auto split: option.splits)
    have "config (fst y) = config (ec2\<lparr>data := rol64 (data ec2 XOR d) (TIME_ENTROPY_BITS E)\<rparr>)"
      using IH [OF r] .
    then show ?thesis using unbiased_bit_config [OF u] c1 by simp
  qed
qed
  then show ?thesis by simp
qed

lemma gen_entropy_config:
  assumes "jent_gen_entropy E ec w = Some (ec', w')"
  shows "config ec' = config ec"
  using assms gen_entropy_loop_config [of E 0 ec w]
  by (auto simp add: jent_gen_entropy_def split: option.splits if_splits)

lemma plain_rounds_world:
  "snd (plain_rounds E n ec w) = w\<lparr>ticks := ticks w + 2 * n, jitters := jitters w + n\<rparr>"
  by (induction n arbitrary: ec w) (simp_all add: jent_measure_jitter_eq)

lemma plain_rounds_config: "config (fst (plain_rounds E n ec w)) = config ec"
proof (induction n arbitrary: ec w)
  case 0
  show ?case by simp
next
  case (Suc n)
  obtain a ec1 w1 where m: "jent_measure_jitter E ec w = (a, ec1, w1)"
    by (cases "jent_measure_jitter E ec w")
  show ?case using Suc [of "ec1\<lparr>data := rol64 (data ec1 XOR a) (TIME_ENTROPY_BITS E)\<rparr>" w1]
      measure_config [OF m] by (simp add: m)
qed

lemma unat_Suc_word: "unat (k :: u32) < n \<Longrightarrow> n < 2 ^ 32 \<Longrightarrow> unat (k + 1) = Suc (unat k)"
  by (simp add: unat_word_ariths)

lemma gen_loop_plain:
  "disable_unbias ec \<Longrightarrow> gen_rounds E ec < 2 ^ 32 \<Longrightarrow> unat k + n = gen_rounds E ec \<Longrightarrow>
   k \<noteq> 0 \<or> n = 0 \<Longrightarrow>
   gen_entropy_loop E k ec w = Some (plain_rounds E n ec w)"
proof (induction n arbitrary: k ec w)
  case 0
  then show ?case by (subst gen_entropy_loop.simps) simp
next
  case (Suc n)
  obtain a ec1 w1 where m: "jent_measure_jitter E ec w = (a, ec1, w1)"
    by (cases "jent_measure_jitter E ec w")
  let ?ec = "ec1\<lparr>data := rol64 (data ec1 XOR a) (TIME_ENTROPY_BITS E)\<rparr>"
  have c: "config ?ec = config ec" using measure_config [OF m] by simp
  have lt: "unat k < gen_rounds E ec" using Suc.prems(3) by simp
  have k1: "unat (k + 1) = Suc (unat k)" using unat_Suc_word [OF lt Suc.prems(2)] .
  have kn: "k \<noteq> 0" using Suc.prems(4) by simp
  have k0: "k + 1 \<noteq> 0" using k1 by (metis Zero_not_Suc unat_0)
  have "gen_entropy_loop E (k + 1) ?ec w1 = Some (plain_rounds E n ?ec w1)"
  proof (rule Suc.IH)
    show "disable_unbias ?ec" using Suc.prems(1) config_fields [OF c] by simp
    show "gen_rounds E ?ec < 2 ^ 32" using Suc.prems(2) gen_rounds_config [OF c] by simp
    show "unat (k + 1) + n = gen_rounds E ?ec"
      using Suc.prems(3) k1 gen_rounds_config [OF c, of E] by simp
    show "k + 1 \<noteq> 0 \<or> n = 0" using k0 by simp
  qed
  then show ?case
    using lt kn Suc.prems(1)
    by (subst gen_entropy_loop.simps) (simp add: jent_unbiased_bit_def m)
qed

lemma gen_loop_plain_0:
  assumes "disable_unbias ec" "gen_rounds E ec < 2 ^ 32" "0 < gen_rounds E ec"
    and m: "jent_measure_jitter E ec w = (a, ec1, w1)"
  shows "gen_entropy_loop E 0 ec w = Some (plain_rounds E (gen_rounds E ec) ec1 w1)"
proof -
  obtain b ec2 w2 where m2: "jent_measure_jitter E ec1 w1 = (b, ec2, w2)"
    by (cases "jent_measure_jitter E ec1 w1")
  let ?ec = "ec2\<lparr>data := rol64 (data ec2 XOR b) (TIME_ENTROPY_BITS E)\<rparr>"
  obtain n where n: "gen_rounds E ec = Suc n" using assms(3) by (cases "gen_rounds E ec") auto
  have c1: "config ec1 = config ec" using measure_config [OF m] by simp
  have c: "config ?ec = config ec" using measure_config [OF m2] c1 by simp
  have "gen_entropy_loop E (0 + 1) ?ec w2 = Some (plain_rounds E n ?ec w2)"
  proof (rule gen_loop_plain)
    show "disable_unbias ?ec" using assms(1) config_fields [OF c] by simp
    show "gen_rounds E ?ec < 2 ^ 32" using assms(2) gen_rounds_config [OF c] by simp
    show "unat (0 + 1 :: u32) + n = gen_rounds E ?ec"
      using n gen_rounds_config [OF c, of E] by simp
    show "(0 + 1 :: u32) \<noteq> 0 \<or> n = 0" by simp
  qed
  moreover have "disable_unbias ec1" using assms(1) config_fields [OF c1] by simp
  ultimately show ?thesis
    using assms(3) 
    by (subst gen_entropy_loop.simps) (simp add: jent_unbiased_bit_def m m2 n)
qed

lemma gen_entropy_plain:
  assumes "disable_unbias ec" "gen_rounds E ec < 2 ^ 32" "0 < gen_rounds E ec"
  shows "jent_gen_entropy E ec w =
           (case plain_rounds E (gen_rounds E ec) (fst (after_jitters E 1 ec w))
                   (snd (after_jitters E 1 ec w)) of
              (ec1, w1) \<Rightarrow> Some (if stir ec1 then jent_stir_pool E ec1 else ec1, w1))"
proof -
  obtain a ec1 w1 where m: "jent_measure_jitter E ec w = (a, ec1, w1)"
    by (cases "jent_measure_jitter E ec w")
  show ?thesis
    by (simp add: jent_gen_entropy_def gen_loop_plain_0 [OF assms m] m split: prod.splits)
qed

lemma gen_entropy_plain_jitters:
  assumes "disable_unbias ec" "gen_rounds E ec < 2 ^ 32" "0 < gen_rounds E ec"
  shows "\<exists>ec'. jent_gen_entropy E ec w =
            Some (ec', w\<lparr>ticks := ticks w + 2 * (gen_rounds E ec + 1),
                         jitters := jitters w + (gen_rounds E ec + 1)\<rparr>)"
proof -
  let ?p = "plain_rounds E (gen_rounds E ec) (fst (after_jitters E 1 ec w))
              (snd (after_jitters E 1 ec w))"
  have "snd ?p = w\<lparr>ticks := ticks w + 2 * (gen_rounds E ec + 1),
                         jitters := jitters w + (gen_rounds E ec + 1)\<rparr>"
    by (simp add: plain_rounds_world after_jitters_world del: after_jitters.simps)
  then show ?thesis
    by (cases ?p) (simp add: gen_entropy_plain [OF assms] del: after_jitters.simps)
qed

lemma gen_entropy_loop_no_rounds:
  "gen_rounds E ec = 0 \<Longrightarrow> gen_entropy_loop E 0 ec w = Some (ec, w)"
  by (subst gen_entropy_loop.simps) simp

lemma stuck_after_jitters:
  "(\<And>m. nstime E m = c) \<Longrightarrow> prev_time ec = c \<Longrightarrow>
   prev_time (fst (after_jitters E n ec w)) = c"
proof (induction n arbitrary: ec w)
  case 0
  then show ?case by simp
next
  case (Suc n)
  show ?case
    using Suc.IH [of "(snd (jent_memaccess ec))\<lparr>prev_time := c\<rparr>"] Suc.prems
    by (simp add: jent_measure_jitter_eq)
qed

lemma stuck_sample:
  assumes "\<And>m. nstime E m = c" "prev_time ec = c"
  shows "sample E ec w n = fold_pass (TIME_ENTROPY_BITS E) 0"
proof -
  obtain ec1 w1 where a: "after_jitters E n ec w = (ec1, w1)"
    by (cases "after_jitters E n ec w")
  have "prev_time ec1 = c" using stuck_after_jitters [OF assms, of n w] a by simp
  then show ?thesis by (simp add: sample_def a jent_measure_jitter_eq assms(1))
qed

lemma stuck_unbias_loop:
  assumes "\<And>m. nstime E m = c" "prev_time ec = c"
  shows "unbias_loop E ec w = None"
proof -
  have "\<not> (\<exists>n. sample E ec w (2 * n) \<noteq> sample E ec w (2 * n + 1))"
    by (simp add: stuck_sample [OF assms])
  then show ?thesis using unbias_loop_returns_iff [of E ec w] by blast
qed

lemma stuck_gen_entropy:
  assumes "\<And>m. nstime E m = c" "\<not> disable_unbias ec" "0 < gen_rounds E ec"
  shows "jent_gen_entropy E ec w = None"
proof -
  obtain a ec1 w1 where m: "jent_measure_jitter E ec w = (a, ec1, w1)"
    by (cases "jent_measure_jitter E ec w")
  have p: "prev_time ec1 = c" using m by (auto simp add: jent_measure_jitter_eq assms(1))
  have d: "\<not> disable_unbias ec1" using measure_config [OF m] assms(2) config_fields by metis
  have "jent_unbiased_bit E ec1 w1 = None"
    using d by (simp add: jent_unbiased_bit_def stuck_unbias_loop [OF assms(1) p])
  then have "gen_entropy_loop E 0 ec w = None"
    using assms(3) by (subst gen_entropy_loop.simps) (simp add: m)
  then show ?thesis by (simp add: jent_gen_entropy_def)
qed

lemma fold_time_count_range:
  "1 \<le> unat (snd (fst (jent_fold_time E ecp t 0 w))) \<and>
   unat (snd (fst (jent_fold_time E ecp t 0 w))) \<le> 16"
  using shuffle_fold_bounds [of E ecp w] by (simp add: jent_fold_time_eq)

lemma after_jitters_prev_time:
  "prev_time (fst (after_jitters E n ec w)) =
     (if n = 0 then prev_time ec else nstime E (ticks w + 2 * (n - 1)))"
proof (induction n arbitrary: ec w)
  case 0
  show ?case by simp
next
  case (Suc n)
  show ?case
    using Suc.IH [of "(snd (jent_memaccess ec))\<lparr>prev_time := nstime E (ticks w)\<rparr>"
        "w\<lparr>ticks := ticks w + 2, jitters := Suc (jitters w)\<rparr>"]
    by (cases n) (simp_all add: jent_measure_jitter_eq)
qed

lemma sample_eq:
  "sample E ec w n =
     fold_pass (TIME_ENTROPY_BITS E)
       (nstime E (ticks w + 2 * n) -
          (if n = 0 then prev_time ec else nstime E (ticks w + 2 * (n - 1))))"
proof -
  obtain ec1 w1 where a: "after_jitters E n ec w = (ec1, w1)"
    by (cases "after_jitters E n ec w")
  have p: "prev_time ec1 = (if n = 0 then prev_time ec else nstime E (ticks w + 2 * (n - 1)))"
    using after_jitters_prev_time [of E n ec w] a by simp
  have w: "ticks w1 = ticks w + 2 * n"
    using after_jitters_world [of E n ec w] a by simp
  show ?thesis
    by (simp add: sample_def a jent_measure_jitter_eq p w)
qed

lemma fold_pass_examples:
  "fold_pass (Suc 0) 1 = 1" "fold_pass (Suc 0) 4 = 1" "fold_pass (Suc 0) 12 = 0"
  "fold_pass (Suc 0) 20 = 0" "fold_pass (Suc 0) 28 = 1" "fold_pass (Suc 0) 36 = 0"
  by (simp_all add: fold_pass_def fold_inner.simps DATA_SIZE_BITS_def)


text \<open>
  C4 (as the code has it). With unbiasing disabled, one sample is one jitter
  measurement, and a generation pass of \<open>r\<close> rounds (\<open>0 < r < 2 ^ 32\<close>) returns
  after \<open>r + 1\<close> measurements, whatever the timer reads. With unbiasing
  enabled, the unbiaser returns if and only if some pair of consecutive
  samples differs; if the first \<open>n\<close> pairs are equal and the next one differs,
  it returns after \<open>2 * n + 2\<close> measurements. There is no bound that holds for
  every timer. The fold loop inside a measurement runs between 1 and 16
  passes, the range of the shuffler.
\<close>

theorem unbiaser_termination:
  "(disable_unbias ec \<longrightarrow>
      jent_unbiased_bit E ec w = Some (sample E ec w 0, after_jitters E 1 ec w)) \<and>
   (\<not> disable_unbias ec \<longrightarrow>
      (jent_unbiased_bit E ec w \<noteq> None) =
      (\<exists>n. sample E ec w (2 * n) \<noteq> sample E ec w (2 * n + 1))) \<and>
   (\<not> disable_unbias ec \<and> (\<forall>m<n. sample E ec w (2 * m) = sample E ec w (2 * m + 1)) \<and>
    sample E ec w (2 * n) \<noteq> sample E ec w (2 * n + 1) \<longrightarrow>
      map_option snd (jent_unbiased_bit E ec w) = Some (after_jitters E (2 * n + 2) ec w)) \<and>
   (disable_unbias ec \<and> 0 < gen_rounds E ec \<and> gen_rounds E ec < 2 ^ 32 \<longrightarrow>
      (\<exists>ec'. jent_gen_entropy E ec w =
               Some (ec', w\<lparr>ticks := ticks w + 2 * (gen_rounds E ec + 1),
                            jitters := jitters w + (gen_rounds E ec + 1)\<rparr>))) \<and>
   1 \<le> unat (snd (fst (jent_fold_time E ecp t 0 w))) \<and>
   unat (snd (fst (jent_fold_time E ecp t 0 w))) \<le> 16"
proof (intro conjI impI)
  assume "disable_unbias ec"
  then show "jent_unbiased_bit E ec w = Some (sample E ec w 0, after_jitters E 1 ec w)"
    by (cases "jent_measure_jitter E ec w") (simp add: jent_unbiased_bit_def sample_def)
next
  assume "\<not> disable_unbias ec"
  then show "(jent_unbiased_bit E ec w \<noteq> None) =
      (\<exists>n. sample E ec w (2 * n) \<noteq> sample E ec w (2 * n + 1))"
    using unbias_loop_returns_iff [of E ec w] by (simp add: jent_unbiased_bit_def)
next
  assume a: "\<not> disable_unbias ec \<and> (\<forall>m<n. sample E ec w (2 * m) = sample E ec w (2 * m + 1)) \<and>
    sample E ec w (2 * n) \<noteq> sample E ec w (2 * n + 1)"
  then have "unbias_loop E ec w =
     Some (if sample E ec w (2 * n) = 1 then 1 else 0, after_jitters E (2 * n + 2) ec w)"
    using unbias_loop_first_diff [of n E ec w] by blast
  with a show "map_option snd (jent_unbiased_bit E ec w) = Some (after_jitters E (2 * n + 2) ec w)"
    by (simp add: jent_unbiased_bit_def del: after_jitters.simps)
next
  assume "disable_unbias ec \<and> 0 < gen_rounds E ec \<and> gen_rounds E ec < 2 ^ 32"
  then show "\<exists>ec'. jent_gen_entropy E ec w =
               Some (ec', w\<lparr>ticks := ticks w + 2 * (gen_rounds E ec + 1),
                            jitters := jitters w + (gen_rounds E ec + 1)\<rparr>)"
    using gen_entropy_plain_jitters [of ec E w] by blast
next
  show "1 \<le> unat (snd (fst (jent_fold_time E ecp t 0 w)))"
    using fold_time_count_range [of E ecp t w] by blast
next
  show "unat (snd (fst (jent_fold_time E ecp t 0 w))) \<le> 16"
    using fold_time_count_range [of E ecp t w] by blast
qed

theorem unbiaser_termination_witness:
  "disable_unbias (collector 0 0 97 False True True) \<and>
   0 < gen_rounds (platform 1 square_timer False False) (collector 0 0 97 False True True) \<and>
   gen_rounds (platform 1 square_timer False False) (collector 0 0 97 False True True) < 2 ^ 32 \<and>
   jent_unbiased_bit (platform 1 square_timer False False) (collector 0 0 97 False True True) world0
     = Some (0, collector 0 0 100 False True True, \<lparr>ticks = 2, jitters = 1\<rparr>) \<and>
   map_option snd (jent_gen_entropy (platform 1 square_timer False False)
                     (collector 0 0 97 False True True) world0)
     = Some \<lparr>ticks = 130, jitters = 65\<rparr> \<and>
   \<not> disable_unbias (collector 0 0 99 False True False) \<and>
   sample (platform 1 square_timer False False) (collector 0 0 99 False True False) world0 0
     = sample (platform 1 square_timer False False) (collector 0 0 99 False True False) world0 1 \<and>
   sample (platform 1 square_timer False False) (collector 0 0 99 False True False) world0 2
     = sample (platform 1 square_timer False False) (collector 0 0 99 False True False) world0 3 \<and>
   sample (platform 1 square_timer False False) (collector 0 0 99 False True False) world0 (2 * 2)
     \<noteq> sample (platform 1 square_timer False False) (collector 0 0 99 False True False)
         world0 (2 * 2 + 1) \<and>
   jent_unbiased_bit (platform 1 square_timer False False) (collector 0 0 99 False True False)
     world0 \<noteq> None \<and>
   map_option (\<lambda>r. jitters (snd (snd r)))
     (jent_unbiased_bit (platform 1 square_timer False False)
        (collector 0 0 99 False True False) world0) = Some 6"
proof -
  let ?E = "platform 1 square_timer False False"
  let ?a = "collector 0 0 97 False True True"
  let ?b = "collector 0 0 99 False True False"
  have da: "disable_unbias ?a" by (simp add: collector_def)
  have ra: "gen_rounds ?E ?a = 64"
    by (simp add: gen_rounds_def platform_def collector_def DATA_SIZE_BITS_def)
  have db: "\<not> disable_unbias ?b" by (simp add: collector_def)
  have s: "sample ?E ?b world0 0 = 1" "sample ?E ?b world0 1 = 1" "sample ?E ?b world0 2 = 0"
    "sample ?E ?b world0 3 = 0" "sample ?E ?b world0 4 = 1" "sample ?E ?b world0 5 = 0"
    by (simp_all add: sample_eq platform_def collector_def square_timer_def world0_def
        fold_pass_examples)
  have eq: "\<forall>m<2. sample ?E ?b world0 (2 * m) = sample ?E ?b world0 (2 * m + 1)"
  proof (intro allI impI)
    fix m :: nat
    assume "m < 2"
    then consider "m = 0" | "m = 1" by arith
    then show "sample ?E ?b world0 (2 * m) = sample ?E ?b world0 (2 * m + 1)"
      using s by cases simp_all
  qed
  have ne: "sample ?E ?b world0 (2 * 2) \<noteq> sample ?E ?b world0 (2 * 2 + 1)"
    using s by simp
  have sa: "sample ?E ?a world0 0 = 0"
    by (simp add: sample_eq platform_def collector_def square_timer_def world0_def fold_pass_1_3)
  have aj: "after_jitters ?E 1 ?a world0 = (collector 0 0 100 False True True, \<lparr>ticks = 2, jitters = 1\<rparr>)"
    by (simp add: measure_collector platform_def square_timer_def world0_def)
  have w6: "snd (after_jitters ?E (2 * 2 + 2) ?b world0) = \<lparr>ticks = 12, jitters = 6\<rparr>"
    by (simp add: after_jitters_world world0_def del: after_jitters.simps)
  note A = unbiaser_termination [of ?a ?E world0 0 None 0]
  note B = unbiaser_termination [of ?b ?E world0 2 None 0]
  have 1: "jent_unbiased_bit ?E ?a world0
     = Some (0, collector 0 0 100 False True True, \<lparr>ticks = 2, jitters = 1\<rparr>)"
    using A da sa aj by simp
  have "\<exists>ec'. jent_gen_entropy ?E ?a world0 = Some (ec', \<lparr>ticks = 130, jitters = 65\<rparr>)"
    using A da ra by (simp add: world0_def)
  then have 2: "map_option snd (jent_gen_entropy ?E ?a world0)
                  = Some \<lparr>ticks = 130, jitters = 65\<rparr>"
    by auto
  have 3: "jent_unbiased_bit ?E ?b world0 \<noteq> None"
    using B db ne by blast
  have 4: "map_option snd (jent_unbiased_bit ?E ?b world0) = Some (after_jitters ?E (2 * 2 + 2) ?b world0)"
    using B db eq ne by blast
  have 5: "map_option (\<lambda>r. jitters (snd (snd r))) (jent_unbiased_bit ?E ?b world0) = Some 6"
    using 4 w6 by (cases "jent_unbiased_bit ?E ?b world0") auto
  have e01: "sample ?E ?b world0 0 = sample ?E ?b world0 1"
    and e23: "sample ?E ?b world0 2 = sample ?E ?b world0 3"
    using s by simp_all
  show ?thesis
    using da ra db e01 e23 ne 1 2 3 5 by simp
qed

text \<open>
  On a timer that stands still every pair of samples is equal: with unbiasing
  enabled neither the unbiaser nor a generation pass returns.
\<close>

theorem unbiaser_never_returns:
  "jent_unbiased_bit (platform 1 stuck_timer False False)
     (collector 0 0 42 False True False) world0 = None \<and>
   jent_gen_entropy (platform 1 stuck_timer False False)
     (collector 0 0 42 False True False) world0 = None"
proof -
  let ?E = "platform 1 stuck_timer False False"
  let ?ec = "collector 0 0 42 False True False"
  have t: "\<And>m. nstime ?E m = 42" by (simp add: platform_def stuck_timer_def)
  have p: "prev_time ?ec = 42" by (simp add: collector_def)
  have d: "\<not> disable_unbias ?ec" by (simp add: collector_def)
  have r: "0 < gen_rounds ?E ?ec"
    by (simp add: gen_rounds_def platform_def collector_def DATA_SIZE_BITS_def)
  show ?thesis
    using d stuck_unbias_loop [OF t p, of world0] stuck_gen_entropy [OF t d r, of world0]
    by (simp add: jent_unbiased_bit_def)
qed

subsection \<open>The value the unbiaser returns\<close>

lemma fold_pass_2_examples:
  "fold_pass 2 12 = 3" "fold_pass 2 20 = 0"
  by (simp_all add: fold_pass_def fold_inner.simps DATA_SIZE_BITS_def)

lemma sample_bit_teb1:
  "TIME_ENTROPY_BITS E = 1 \<Longrightarrow> sample E ec w n = 0 \<or> sample E ec w n = 1"
  using fold_pass_bit by (simp add: sample_eq)

text \<open>
  Whenever the unbiaser draws a pair of different samples, after any number of
  discarded pairs, it returns 1 if the first sample of the pair is 1 and 0
  otherwise.
\<close>

lemma unbiased_bit_first_diff:
  assumes "\<not> disable_unbias ec"
    and "\<And>m. m < n \<Longrightarrow> sample E ec w (2 * m) = sample E ec w (2 * m + 1)"
    and "sample E ec w (2 * n) \<noteq> sample E ec w (2 * n + 1)"
  shows "jent_unbiased_bit E ec w =
           Some (if sample E ec w (2 * n) = 1 then 1 else 0, after_jitters E (2 * n + 2) ec w)"
  using assms(1) unbias_loop_first_diff [of n E ec w, OF assms(2,3)]
  by (simp add: jent_unbiased_bit_def del: after_jitters.simps)

text \<open>
  In a build with \<open>TIME_ENTROPY_BITS = 1\<close> a sample is 0 or 1, and the value
  returned is the first sample of the pair.
\<close>

lemma unbiased_bit_teb1:
  assumes "TIME_ENTROPY_BITS E = 1" "\<not> disable_unbias ec"
    and "\<And>m. m < n \<Longrightarrow> sample E ec w (2 * m) = sample E ec w (2 * m + 1)"
    and "sample E ec w (2 * n) \<noteq> sample E ec w (2 * n + 1)"
  shows "jent_unbiased_bit E ec w = Some (sample E ec w (2 * n), after_jitters E (2 * n + 2) ec w)"
  using unbiased_bit_first_diff [OF assms(2,3,4)] sample_bit_teb1 [OF assms(1), of ec w "2 * n"]
  by auto

text \<open>
  C5: the claim is that the unbiaser, whenever it draws two different samples
  \<open>a\<close> and \<open>b\<close>, returns \<open>a\<close>, the full sample of \<open>TIME_ENTROPY_BITS\<close> bits.
  The code does not in a build with \<open>TIME_ENTROPY_BITS = 2\<close>: it ends with
  \<^verbatim>\<open>if (1 == a) return 1; else return 0;\<close>. When the first two samples are 2
  and 1 it returns 0 and not 2, while the same call with unbiasing disabled
  returns the sample 2; when the samples are 1, 1, 3, 0 it discards the first
  pair and returns 0 and not 3. (By \<open>unbiased_bit_first_diff\<close> the value
  returned is always 0 or 1; by \<open>unbiased_bit_teb1\<close> it is \<open>a\<close> in a build with
  \<open>TIME_ENTROPY_BITS = 1\<close>.)
\<close>

theorem unbiased_bit_drops_sample:
  "TIME_ENTROPY_BITS (platform 2 square_timer False False) = 2 \<and>
   \<not> disable_unbias (collector 0 0 98 False True False) \<and>
   sample (platform 2 square_timer False False) (collector 0 0 98 False True False) world0 0 = 2 \<and>
   sample (platform 2 square_timer False False) (collector 0 0 98 False True False) world0 1 = 1 \<and>
   jent_unbiased_bit (platform 2 square_timer False False) (collector 0 0 98 False True False) world0
     = Some (0, collector 0 0 104 False True False, \<lparr>ticks = 4, jitters = 2\<rparr>) \<and>
   jent_unbiased_bit (platform 2 square_timer False False) (collector 0 0 98 False True True) world0
     = Some (2, collector 0 0 100 False True True, \<lparr>ticks = 2, jitters = 1\<rparr>) \<and>
   \<not> disable_unbias (collector 0 0 96 False True False) \<and>
   sample (platform 2 square_timer False False) (collector 0 0 96 False True False) world0 0 = 1 \<and>
   sample (platform 2 square_timer False False) (collector 0 0 96 False True False) world0 1 = 1 \<and>
   sample (platform 2 square_timer False False) (collector 0 0 96 False True False) world0 2 = 3 \<and>
   sample (platform 2 square_timer False False) (collector 0 0 96 False True False) world0 3 = 0 \<and>
   jent_unbiased_bit (platform 2 square_timer False False) (collector 0 0 96 False True False) world0
     = Some (0, collector 0 0 136 False True False, \<lparr>ticks = 8, jitters = 4\<rparr>)"
proof -
  let ?E = "platform 2 square_timer False False"
  let ?a = "collector 0 0 98 False True False"
  let ?s = "collector 0 0 98 False True True"
  let ?b = "collector 0 0 96 False True False"
  have teb: "TIME_ENTROPY_BITS ?E = 2" by (simp add: platform_def)
  have d: "\<not> disable_unbias ?a" "disable_unbias ?s" "\<not> disable_unbias ?b"
    by (simp_all add: collector_def)
  have a1: "jent_measure_jitter ?E ?a world0
     = (2, collector 0 0 100 False True False, \<lparr>ticks = 2, jitters = 1\<rparr>)"
    by (simp add: measure_collector platform_def square_timer_def world0_def fold_pass_2_2)
  have a2: "jent_measure_jitter ?E (collector 0 0 100 False True False) \<lparr>ticks = 2, jitters = 1\<rparr>
     = (1, collector 0 0 104 False True False, \<lparr>ticks = 4, jitters = 2\<rparr>)"
    by (simp add: measure_collector platform_def square_timer_def fold_pass_2_4)
  have s1: "jent_measure_jitter ?E ?s world0
     = (2, collector 0 0 100 False True True, \<lparr>ticks = 2, jitters = 1\<rparr>)"
    by (simp add: measure_collector platform_def square_timer_def world0_def fold_pass_2_2)
  have b1: "jent_measure_jitter ?E ?b world0
     = (1, collector 0 0 100 False True False, \<lparr>ticks = 2, jitters = 1\<rparr>)"
    by (simp add: measure_collector platform_def square_timer_def world0_def fold_pass_2_4)
  have b3: "jent_measure_jitter ?E (collector 0 0 104 False True False) \<lparr>ticks = 4, jitters = 2\<rparr>
     = (3, collector 0 0 116 False True False, \<lparr>ticks = 6, jitters = 3\<rparr>)"
    by (simp add: measure_collector platform_def square_timer_def fold_pass_2_examples)
  have b4: "jent_measure_jitter ?E (collector 0 0 116 False True False) \<lparr>ticks = 6, jitters = 3\<rparr>
     = (0, collector 0 0 136 False True False, \<lparr>ticks = 8, jitters = 4\<rparr>)"
    by (simp add: measure_collector platform_def square_timer_def fold_pass_2_examples)
  have sa: "sample ?E ?a world0 0 = 2" "sample ?E ?a world0 1 = 1"
    using a1 a2 by (simp_all add: sample_def)
  have sb: "sample ?E ?b world0 0 = 1" "sample ?E ?b world0 1 = 1"
    "sample ?E ?b world0 2 = 3" "sample ?E ?b world0 3 = 0"
    by (simp_all add: sample_eq platform_def collector_def square_timer_def world0_def
        fold_pass_2_4 fold_pass_2_examples)
  have ra: "jent_unbiased_bit ?E ?a world0
     = Some (0, collector 0 0 104 False True False, \<lparr>ticks = 4, jitters = 2\<rparr>)"
    using d(1) unbias_loop_pair [OF a1 a2] by (simp add: jent_unbiased_bit_def)
  have rs: "jent_unbiased_bit ?E ?s world0
     = Some (2, collector 0 0 100 False True True, \<lparr>ticks = 2, jitters = 1\<rparr>)"
    using d(2) s1 by (simp add: jent_unbiased_bit_def)
  have "unbias_loop ?E (collector 0 0 104 False True False) \<lparr>ticks = 4, jitters = 2\<rparr>
     = Some (0, collector 0 0 136 False True False, \<lparr>ticks = 8, jitters = 4\<rparr>)"
    using unbias_loop_pair [OF b3 b4] by simp
  then have rb: "jent_unbiased_bit ?E ?b world0
     = Some (0, collector 0 0 136 False True False, \<lparr>ticks = 8, jitters = 4\<rparr>)"
    using d(3) unbias_loop_pair [OF b1 a2] by (simp add: jent_unbiased_bit_def)
  show ?thesis
    using teb d(1,3) sa sb ra rs rb by blast
qed

subsection \<open>Stirring the pool\<close>

lemma rotl_0: "word_rotl 0 (x :: u64) = x"
  by (rule bit_word_eqI) (simp add: bit_word_rotl_iff)

lemma rotr_0: "word_rotr 0 (x :: u64) = x"
  by (rule bit_word_eqI) (simp add: bit_word_rotr_iff)

lemma rotl_as_roti: "word_rotl a (x :: u64) = word_roti (- int a) x"
proof (cases a)
  case 0
  then show ?thesis by (simp add: rotl_0 rotr_0)
next
  case (Suc n)
  have "nat (int n + 1) = Suc n" by simp
  then show ?thesis using Suc by simp
qed

lemma rotl_rotl: "word_rotl a (word_rotl b (x :: u64)) = word_rotl (a + b) x"
proof -
  have "word_rotl a (word_rotl b x) = word_roti (- int a) (word_roti (- int b) x)"
    by (simp only: rotl_as_roti)
  also have "\<dots> = word_roti (- int a + - int b) x"
    by (simp only: word_roti_add)
  also have "- int a + - int b = - int (a + b)" by simp
  finally show ?thesis by (simp only: rotl_as_roti)
qed

lemma rotl_Suc: "word_rotl a (word_rotl 1 (x :: u64)) = word_rotl (Suc a) x"
  by (simp add: rotl_rotl)

lemma rotl_64: "word_rotl 64 (x :: u64) = x"
  by (rule bit_word_eqI) (simp add: bit_word_rotl_iff)

lemma rotr_rotl_Suc: "word_rotr 1 (word_rotl (Suc a) (x :: u64)) = word_rotl a x"
proof -
  have "word_rotl (Suc a) x = word_rotl 1 (word_rotl a x)"
    by (simp add: rotl_rotl)
  then show ?thesis by (simp only: word_rot_lr)
qed

lemma bit_test: "(drop_bit i d AND 1 \<noteq> 0) = bit (d :: u64) i"
  by (simp add: and_one_eq bit_iff_odd_drop_bit odd_iff_mod_2_eq_one)

lemma bit_rotl_1_Suc: "Suc i < 64 \<Longrightarrow> bit (word_rotl 1 (d :: u64)) (Suc i) = bit d i"
  by (simp add: bit_word_rotl_iff)

lemma bit_rotl_1_0: "bit (word_rotl 1 (d :: u64)) 0 = bit d 63"
  by (simp add: bit_word_rotl_iff)

lemma rotl_1_exp:
  assumes "Suc i < 64"
  shows "word_rotl 1 (2 ^ i :: u64) = 2 ^ Suc i"
proof (rule bit_word_eqI)
  fix n assume n: "n < LENGTH(64)"
  have eq: "((n + 63) mod 64 = i) = (n = Suc i)"
  proof (cases n)
    case 0
    then show ?thesis using assms by simp
  next
    case (Suc k)
    then have "(n + 63) mod 64 = k" using n by (simp add: mod_Suc)
    then show ?thesis using Suc by auto
  qed
  have "bit (word_rotl 1 (2 ^ i :: u64)) n = ((n + 63) mod 64 = i)"
    using n assms by (auto simp add: bit_word_rotl_iff bit_exp_iff)
  also have "\<dots> = bit (2 ^ Suc i :: u64) n"
    using n assms eq by (simp only: bit_exp_iff) auto
  finally show "bit (word_rotl 1 (2 ^ i :: u64)) n = bit (2 ^ Suc i :: u64) n" .
qed

lemma pick_xor: "pick (a \<noteq> b) c = pick a c XOR pick b c"
  by (simp add: pick_def)

lemma pick_self: "pick b c XOR pick b c = 0"
  by simp

lemma stir_loop_step:
  "i < 64 \<Longrightarrow> stir_loop d c i m =
     stir_loop d c (Suc i) (word_rotl 1 (m XOR pick (bit d i) c))"
  by (subst stir_loop.simps) (simp add: DATA_SIZE_BITS_def rol64_def bit_test pick_def)

lemma stir_loop_done: "64 \<le> i \<Longrightarrow> stir_loop d c i m = m"
  by (subst stir_loop.simps) (simp add: DATA_SIZE_BITS_def)

lemma stir_loop_linear:
  "stir_loop (d1 XOR d2) c i (m1 XOR m2) = stir_loop d1 c i m1 XOR stir_loop d2 c i m2"
proof (induction "64 - i" arbitrary: i m1 m2)
  case 0
  then show ?case by (simp add: stir_loop_done)
next
  case (Suc n)
  then have i: "i < 64" and n: "n = 64 - Suc i" by simp_all
  let ?M1 = "word_rotl 1 (m1 XOR pick (bit d1 i) c)"
  let ?M2 = "word_rotl 1 (m2 XOR pick (bit d2 i) c)"
  have "(m1 XOR m2) XOR pick (bit (d1 XOR d2) i) c
          = (m1 XOR pick (bit d1 i) c) XOR (m2 XOR pick (bit d2 i) c)"
    by (simp only: bit_xor_iff pick_xor) (simp only: ac_simps)
  then have m: "word_rotl 1 ((m1 XOR m2) XOR pick (bit (d1 XOR d2) i) c) = ?M1 XOR ?M2"
    by (simp only: word_rot_logs)
  have "stir_loop (d1 XOR d2) c i (m1 XOR m2) = stir_loop (d1 XOR d2) c (Suc i) (?M1 XOR ?M2)"
    using i by (simp only: stir_loop_step m)
  also have "\<dots> = stir_loop d1 c (Suc i) ?M1 XOR stir_loop d2 c (Suc i) ?M2"
    using n by (rule Suc.hyps(1))
  also have "\<dots> = stir_loop d1 c i m1 XOR stir_loop d2 c i m2"
    using i by (simp only: stir_loop_step)
  finally show ?case .
qed

lemma stir_loop_zero: "i \<le> 64 \<Longrightarrow> stir_loop 0 c i m = word_rotl (64 - i) m"
proof (induction "64 - i" arbitrary: i m)
  case 0
  then show ?case by (simp add: stir_loop_done rotl_0)
next
  case (Suc n)
  then have i: "i < 64" and n: "n = 64 - Suc i" by simp_all
  have "stir_loop 0 c (Suc i) (word_rotl 1 m) = word_rotl (64 - Suc i) (word_rotl 1 m)"
    using Suc.hyps(1) [of "Suc i" "word_rotl 1 m"] n i by simp
  also have "\<dots> = word_rotl (Suc (64 - Suc i)) m" by (rule rotl_Suc)
  also have "Suc (64 - Suc i) = 64 - i" using i by simp
  finally show ?case using i by (simp add: stir_loop_step pick_def)
qed

lemma stir_loop_split:
  assumes "i \<le> 64"
  shows "stir_loop d c i m = stir_loop d c i 0 XOR word_rotl (64 - i) m"
proof -
  have "stir_loop (d XOR 0) c i (0 XOR m) = stir_loop d c i 0 XOR stir_loop 0 c i m"
    by (rule stir_loop_linear)
  then show ?thesis using assms by (simp add: stir_loop_zero)
qed

lemma stir_loop_rec:
  assumes "i < 64"
  shows "stir_loop d c i 0 =
           stir_loop d c (Suc i) 0 XOR word_rotl (64 - i) (pick (bit d i) c)"
proof -
  have "stir_loop d c i 0 = stir_loop d c (Suc i) (word_rotl 1 (pick (bit d i) c))"
    using assms by (simp add: stir_loop_step)
  also have "\<dots> = stir_loop d c (Suc i) 0
                 XOR word_rotl (64 - Suc i) (word_rotl 1 (pick (bit d i) c))"
    using assms by (intro stir_loop_split) simp
  also have "word_rotl (64 - Suc i) (word_rotl 1 (pick (bit d i) c))
               = word_rotl (Suc (64 - Suc i)) (pick (bit d i) c)"
    by (rule rotl_Suc)
  also have "Suc (64 - Suc i) = 64 - i" using assms by simp
  finally show ?thesis .
qed

lemma stir_loop_rot:
  "i \<le> 63 \<Longrightarrow>
   stir_loop (word_rotl 1 d) c (Suc i) 0 =
     word_rotr 1 (stir_loop d c i 0) XOR pick (bit d 63) c"
proof (induction "63 - i" arbitrary: i)
  case 0
  then have i: "i = 63" by simp
  have "stir_loop d c 63 0 = word_rotl 1 (pick (bit d 63) c)"
    using stir_loop_rec [of 63 d c] by (simp add: stir_loop_done)
  then show ?case by (simp add: i stir_loop_done)
next
  case (Suc n)
  then have i: "i < 63" and n: "n = 63 - Suc i" by simp_all
  let ?b = "pick (bit d i) c"
  let ?e = "pick (bit d 63) c"
  let ?S = "word_rotr 1 (stir_loop d c (Suc i) 0)"
  let ?r = "word_rotl (64 - Suc i) ?b"
  have ih: "stir_loop (word_rotl 1 d) c (Suc (Suc i)) 0 = ?S XOR ?e"
    using Suc.hyps(1) [of "Suc i"] n i by simp
  have "stir_loop (word_rotl 1 d) c (Suc i) 0 =
          stir_loop (word_rotl 1 d) c (Suc (Suc i)) 0
          XOR word_rotl (64 - Suc i) (pick (bit (word_rotl 1 d) (Suc i)) c)"
    using i by (intro stir_loop_rec) simp
  also have "bit (word_rotl 1 d) (Suc i) = bit d i"
    using i by (intro bit_rotl_1_Suc) simp
  finally have l: "stir_loop (word_rotl 1 d) c (Suc i) 0 = (?S XOR ?e) XOR ?r"
    by (simp only: ih)
  have "word_rotr 1 (stir_loop d c i 0) =
          word_rotr 1 (stir_loop d c (Suc i) 0 XOR word_rotl (64 - i) ?b)"
    using i stir_loop_rec [of i d c] by simp
  also have "\<dots> = ?S XOR word_rotr 1 (word_rotl (64 - i) ?b)"
    by (simp only: word_rot_logs)
  also have "64 - i = Suc (64 - Suc i)" using i by simp
  also have "word_rotr 1 (word_rotl (Suc (64 - Suc i)) ?b) = ?r"
    by (rule rotr_rotl_Suc)
  finally have r: "word_rotr 1 (stir_loop d c i 0) = ?S XOR ?r" .
  show ?case by (simp only: l r ac_simps)
qed

lemma stir_mix_rotl: "stir_mix c (word_rotl 1 d) = word_rotr 1 (stir_mix c d)"
proof -
  let ?e = "pick (bit d 63) c"
  have rot0: "stir_loop (word_rotl 1 d) c (Suc 0) 0 = word_rotr 1 (stir_loop d c 0 0) XOR ?e"
    by (rule stir_loop_rot) simp
  have "stir_loop (word_rotl 1 d) c 0 0 =
          stir_loop (word_rotl 1 d) c (Suc 0) 0
          XOR word_rotl (64 - 0) (pick (bit (word_rotl 1 d) 0) c)"
    by (intro stir_loop_rec) simp
  also have "\<dots> = (word_rotr 1 (stir_loop d c 0 0) XOR ?e) XOR ?e"
    by (simp only: rot0 rotl_64 bit_rotl_1_0 diff_zero)
  also have "\<dots> = word_rotr 1 (stir_loop d c 0 0)"
    by (simp add: xor.assoc)
  finally show ?thesis by (simp add: stir_mix_def)
qed

lemma stir_mix_rotr: "stir_mix c (word_rotr 1 d) = word_rotl 1 (stir_mix c d)"
proof -
  have "stir_mix c d = stir_mix c (word_rotl 1 (word_rotr 1 d))" by simp
  also have "\<dots> = word_rotr 1 (stir_mix c (word_rotr 1 d))" by (rule stir_mix_rotl)
  finally have "word_rotl 1 (stir_mix c d) = word_rotl 1 (word_rotr 1 (stir_mix c (word_rotr 1 d)))"
    by simp
  then show ?thesis by simp
qed

lemma stir_mix_xor: "stir_mix c (a XOR b) = stir_mix c a XOR stir_mix c b"
  using stir_loop_linear [of a b c 0 0 0] by (simp add: stir_mix_def)

lemma stir_mix_0: "stir_mix c 0 = 0"
  by (simp add: stir_mix_def stir_loop_zero)

lemma stir_loop_mix: "stir_loop d c 0 m = stir_mix c d XOR m"
  using stir_loop_split [of 0 d c m] by (simp add: stir_mix_def rotl_64)

lemma take_bit_Suc_pick:
  "take_bit (Suc n) (d :: u64) = take_bit n d XOR pick (bit d n) (2 ^ n)"
proof (rule bit_word_eqI)
  fix k assume "k < LENGTH(64)"
  then show "bit (take_bit (Suc n) d) k = bit (take_bit n d XOR pick (bit d n) (2 ^ n)) k"
    by (cases "bit d n") (auto simp add: pick_def bit_simps less_Suc_eq dest: bit_imp_le_length)
qed

lemma rot_linear_zero:
  fixes g :: "u64 \<Rightarrow> u64"
  assumes lin: "\<And>a b. g (a XOR b) = g a XOR g b"
    and rot: "\<And>d. g (word_rotl 1 d) = word_rotr 1 (g d)"
    and one: "g 1 = 0"
  shows "g d = 0"
proof -
  have g0: "g 0 = 0" using lin [of 0 0] by simp
  have basis: "i < 64 \<Longrightarrow> g (2 ^ i) = 0" for i
  proof (induction i)
    case 0
    then show ?case using one by simp
  next
    case (Suc i)
    then have "g (2 ^ i) = 0" by simp
    moreover have "word_rotl 1 (2 ^ i :: u64) = 2 ^ Suc i" using Suc.prems by (rule rotl_1_exp)
    ultimately show ?case using rot [of "2 ^ i"] by simp
  qed
  have tb: "g (take_bit n d) = 0" for n
  proof (induction n)
    case 0
    then show ?case by (simp add: g0)
  next
    case (Suc n)
    have "g (pick (bit d n) (2 ^ n)) = 0"
    proof (cases "bit d n")
      case True
      then have "n < 64" using bit_imp_le_length [of d n] by simp
      then show ?thesis using True basis by (simp add: pick_def)
    next
      case False
      then show ?thesis by (simp add: pick_def g0)
    qed
    then show ?case using Suc by (simp only: take_bit_Suc_pick lin) simp
  qed
  have "take_bit 64 d = d" by (rule bit_word_eqI) (simp add: bit_simps)
  then show ?thesis using tb [of 64] by simp
qed

lemma stir_mix_cube_zero:
  assumes "stir_mix c (stir_mix c (stir_mix c 1)) = 0"
  shows "stir_mix c (stir_mix c (stir_mix c e)) = 0"
proof (rule rot_linear_zero [where g = "\<lambda>e. stir_mix c (stir_mix c (stir_mix c e))"])
  show "stir_mix c (stir_mix c (stir_mix c (a XOR b))) =
        stir_mix c (stir_mix c (stir_mix c a)) XOR stir_mix c (stir_mix c (stir_mix c b))" for a b
    by (simp only: stir_mix_xor)
  show "stir_mix c (stir_mix c (stir_mix c (word_rotl 1 d))) =
        word_rotr 1 (stir_mix c (stir_mix c (stir_mix c d)))" for d
    by (simp only: stir_mix_rotl stir_mix_rotr)
  show "stir_mix c (stir_mix c (stir_mix c 1)) = 0" by (rule assms)
qed

lemma word_xor_eq_0: "(a XOR b = 0) = (a = (b :: u64))"
proof
  assume "a XOR b = 0"
  then have "(a XOR b) XOR b = 0 XOR b" by simp
  then show "a = b" by (simp add: xor.assoc)
next
  assume "a = b"
  then show "a XOR b = 0" by simp
qed

lemma stir_mix_fixed:
  assumes cube: "stir_mix c (stir_mix c (stir_mix c 1)) = 0"
    and z: "d XOR stir_loop d c 0 m0 = 0"
  shows "d = m0 XOR stir_mix c m0 XOR stir_mix c (stir_mix c m0)"
proof -
  have d: "d = stir_mix c d XOR m0"
    using z by (simp add: stir_loop_mix word_xor_eq_0)
  have "stir_mix c d = stir_mix c (stir_mix c d) XOR stir_mix c m0"
    using arg_cong [OF d, of "stir_mix c"] by (simp only: stir_mix_xor)
  moreover have "stir_mix c (stir_mix c d) =
      stir_mix c (stir_mix c (stir_mix c d)) XOR stir_mix c (stir_mix c m0)"
    using arg_cong [OF d, of "\<lambda>x. stir_mix c (stir_mix c x)"] by (simp only: stir_mix_xor)
  ultimately have "stir_mix c d = stir_mix c (stir_mix c m0) XOR stir_mix c m0"
    by (simp add: stir_mix_cube_zero [OF cube])
  with d show ?thesis by (simp add: ac_simps)
qed

lemma rol64_eval: "rol64 x (Suc 0) = push_bit 1 x OR of_bool (bit x 63)"
proof (rule bit_word_eqI)
  fix n assume n: "n < LENGTH(64)"
  show "bit (rol64 x (Suc 0)) n = bit (push_bit 1 x OR of_bool (bit x 63)) n"
  proof (cases n)
    case 0
    have a: "bit (rol64 x (Suc 0)) 0 = bit x 63"
      using bit_rotl_1_0 [of x] by (simp add: rol64_def)
    have b: "bit (push_bit 1 x OR of_bool (bit x 63)) 0 = bit x 63"
      by (simp only: bit_or_iff bit_push_bit_iff bit_of_bool_iff) simp
    show ?thesis using 0 a b by (simp only:)
  next
    case (Suc k)
    have a: "bit (rol64 x (Suc 0)) (Suc k) = bit x k"
      using bit_rotl_1_Suc [of k x] n Suc by (simp add: rol64_def)
    have b: "bit (push_bit 1 x OR of_bool (bit x 63)) (Suc k) = bit x k"
      using n Suc by (simp only: bit_or_iff bit_push_bit_iff bit_of_bool_iff) simp
    show ?thesis using Suc a b by (simp only:)
  qed
qed

lemmas stir_eval = stir_mix_def stir_loop.simps DATA_SIZE_BITS_def bit_test rol64_eval

lemma le_c: "stir_mix 0x67452301efcdab89 0x67452301efcdab89 = 0x1010101010101010"
  by (simp add: stir_eval)

lemma le_m: "stir_mix 0x67452301efcdab89 0x98badcfe10325476 = 0x1010101010101010"
  by (simp add: stir_eval)

lemma le_p: "stir_mix 0x67452301efcdab89 0x1010101010101010 = 0"
  by (simp add: stir_eval)

lemma le_1: "stir_mix 0x67452301efcdab89 1 = 0x67452301efcdab89"
  by (simp add: stir_eval)

lemma be_c: "stir_mix 0xefcdab8967452301 0xefcdab8967452301 = 0x1010101010101010"
  by (simp add: stir_eval)

lemma be_m: "stir_mix 0xefcdab8967452301 0x1032547698badcfe = 0x1010101010101010"
  by (simp add: stir_eval)

lemma be_p: "stir_mix 0xefcdab8967452301 0x1010101010101010 = 0"
  by (simp add: stir_eval)

lemma be_1: "stir_mix 0xefcdab8967452301 1 = 0xefcdab8967452301"
  by (simp add: stir_eval)

lemma union_c_values:
  "union_c_u64 False 0xefcdab89 0x67452301 = 0x67452301efcdab89"
  "union_c_u64 False 0x10325476 0x98badcfe = 0x98badcfe10325476"
  "union_c_u64 True 0xefcdab89 0x67452301 = 0xefcdab8967452301"
  "union_c_u64 True 0x10325476 0x98badcfe = 0x1032547698badcfe"
  by (simp_all add: union_c_u64_def)

lemma stir_mix_zero_values:
  "stir_mix 0x67452301efcdab89 0x88AACCEE00224466 = 0x1010101010101010"
  "stir_mix 0xefcdab8967452301 0x0022446688AACCEE = 0x1010101010101010"
  by (simp_all add: stir_eval)

lemma stir_pool_data:
  "data (jent_stir_pool E ec) =
     data ec XOR stir_loop (data ec)
       (if big_endian E then 0xefcdab8967452301 else 0x67452301efcdab89) 0
       (if big_endian E then 0x1032547698badcfe else 0x98badcfe10325476)"
  by (cases "big_endian E") (simp_all add: jent_stir_pool_def Let_def union_c_values)

lemma stir_pool_zero:
  "data (jent_stir_pool E ec) = 0 \<longleftrightarrow> data ec = stir_zero E"
proof (cases "big_endian E")
  case False
  let ?c = "0x67452301efcdab89 :: u64"
  let ?m = "0x98badcfe10325476 :: u64"
  have cube: "stir_mix ?c (stir_mix ?c (stir_mix ?c 1)) = 0"
    by (simp only: le_1 le_c le_p)
  show ?thesis
  proof
    assume "data (jent_stir_pool E ec) = 0"
    then have "data ec XOR stir_loop (data ec) ?c 0 ?m = 0"
      using False by (simp add: stir_pool_data)
    from stir_mix_fixed [OF cube this] show "data ec = stir_zero E"
      using False by (simp add: le_m le_p stir_zero_def)
  next
    assume "data ec = stir_zero E"
    then show "data (jent_stir_pool E ec) = 0"
      using False by (simp add: stir_pool_data stir_zero_def stir_loop_mix stir_mix_zero_values)
  qed
next
  case True
  let ?c = "0xefcdab8967452301 :: u64"
  let ?m = "0x1032547698badcfe :: u64"
  have cube: "stir_mix ?c (stir_mix ?c (stir_mix ?c 1)) = 0"
    by (simp only: be_1 be_c be_p)
  show ?thesis
  proof
    assume "data (jent_stir_pool E ec) = 0"
    then have "data ec XOR stir_loop (data ec) ?c 0 ?m = 0"
      using True by (simp add: stir_pool_data)
    from stir_mix_fixed [OF cube this] show "data ec = stir_zero E"
      using True by (simp add: be_m be_p stir_zero_def)
  next
    assume "data ec = stir_zero E"
    then show "data (jent_stir_pool E ec) = 0"
      using True by (simp add: stir_pool_data stir_zero_def stir_loop_mix stir_mix_zero_values)
  qed
qed

text \<open>
  C7 (as the code has it). The stir step turns exactly one pool value into
  zero: \<open>0x88AACCEE00224466\<close> on a little-endian machine and
  \<open>0x0022446688AACCEE\<close> on a big-endian one. Every other pool value, zero
  included, is stirred into a non-zero value.
\<close>

theorem stir_pool_zero_iff:
  "data (jent_stir_pool E ec) = 0 \<longleftrightarrow> data ec = stir_zero E"
  by (rule stir_pool_zero)

text \<open>
  The non-zero pool \<open>0x88AACCEE00224466\<close> is stirred into zero on a
  little-endian machine.
\<close>

theorem stir_pool_zeroes_nonzero_pool:
  "data (collector 0x88AACCEE00224466 0 0 False True False) \<noteq> 0 \<and>
   data (jent_stir_pool (platform 1 steady_timer False False)
           (collector 0x88AACCEE00224466 0 0 False True False)) = 0"
  by (simp add: stir_pool_data stir_loop_mix stir_mix_zero_values collector_def platform_def)

subsection \<open>Generation passes on a steady timer\<close>

lemma sample_data_update: "sample E (ec\<lparr>data := x\<rparr>) w k = sample E ec w k"
  by (simp add: sample_eq)

lemma plain_rounds_zero_data:
  "(\<And>k. k < n \<Longrightarrow> sample E ec w k = 0) \<Longrightarrow>
   data (fst (plain_rounds E n ec w)) = word_rotl (n * TIME_ENTROPY_BITS E) (data ec)"
proof (induction n arbitrary: ec w)
  case 0
  show ?case by (simp add: rotl_0)
next
  case (Suc n)
  obtain a ec1 w1 where m: "jent_measure_jitter E ec w = (a, ec1, w1)"
    by (cases "jent_measure_jitter E ec w")
  let ?ec = "ec1\<lparr>data := rol64 (data ec1 XOR a) (TIME_ENTROPY_BITS E)\<rparr>"
  have a: "a = 0" using Suc.prems [of 0] sample_0 [OF m] by simp
  have d: "data ec1 = data ec" using measure_config [OF m] by simp
  have z: "sample E ?ec w1 k = 0" if "k < n" for k
    using Suc.prems [of "Suc k"] that by (simp add: sample_data_update sample_Suc [OF m])
  have "data (fst (plain_rounds E n ?ec w1)) = word_rotl (n * TIME_ENTROPY_BITS E) (data ?ec)"
    using z by (rule Suc.IH)
  then show ?case
    by (simp add: m a d rol64_def rotl_rotl add.commute)
qed

lemma fold_pass_1_6: "fold_pass (Suc 0) 6 = 0"
  by (simp add: fold_pass_def fold_inner.simps DATA_SIZE_BITS_def)

lemma steady_timer_step: "steady_timer (t + 2) - steady_timer t = 6"
proof -
  have "3 * (t + 2) + 1000 = (3 * t + 1000) + 6" by simp
  then show ?thesis by (simp only: steady_timer_def of_nat_add) simp
qed

lemma steady_sample:
  assumes "TIME_ENTROPY_BITS E = 1" "nstime E = steady_timer" "0 < k"
  shows "sample E ec w k = 0"
proof -
  obtain j where k: "k = Suc j" using assms(3) by (cases k) auto
  have "steady_timer (ticks w + 2 * j + 2) - steady_timer (ticks w + 2 * j) = 6"
    by (rule steady_timer_step)
  then show ?thesis
    by (simp add: sample_eq assms(1,2) k fold_pass_1_6 add.commute add.left_commute)
qed

lemma steady_sample_primed:
  assumes "TIME_ENTROPY_BITS E = 1" "nstime E = steady_timer"
    and "jent_measure_jitter E ec w = (a, ec1, w1)"
  shows "sample E ec1 w1 k = 0"
  using steady_sample [OF assms(1,2), of "Suc k" ec w] by (simp add: sample_Suc [OF assms(3)])

lemma gen_entropy_plain_data:
  assumes "disable_unbias ec" "gen_rounds E ec < 2 ^ 32" "0 < gen_rounds E ec"
    and "jent_measure_jitter E ec w = (a, ec1, w1)"
    and "jent_gen_entropy E ec w = Some (ec', w')"
  shows "data ec' =
           (let d = data (fst (plain_rounds E (gen_rounds E ec) ec1 w1))
            in if stir ec then data (jent_stir_pool E (ec\<lparr>data := d\<rparr>)) else d)"
proof -
  let ?p = "plain_rounds E (gen_rounds E ec) ec1 w1"
  have s: "stir (fst ?p) = stir ec"
    using plain_rounds_config [of E "gen_rounds E ec" ec1 w1] measure_config [OF assms(4)]
      config_fields [of "fst ?p" ec] by simp
  have "jent_gen_entropy E ec w =
      Some (if stir (fst ?p) then jent_stir_pool E (fst ?p) else fst ?p, snd ?p)"
    by (simp add: gen_entropy_plain [OF assms(1-3)] assms(4) split: prod.splits)
  with assms(5) have "ec' = (if stir (fst ?p) then jent_stir_pool E (fst ?p) else fst ?p)"
    by simp
  then show ?thesis by (simp add: s stir_pool_data Let_def)
qed

lemma steady_gen_entropy_data:
  assumes "TIME_ENTROPY_BITS E = 1" "nstime E = steady_timer"
    and "disable_unbias ec" "gen_rounds E ec < 2 ^ 32" "0 < gen_rounds E ec"
    and "jent_gen_entropy E ec w = Some (ec', w')"
  shows "data ec' =
           (let d = word_rotl (gen_rounds E ec) (data ec)
            in if stir ec then data (jent_stir_pool E (ec\<lparr>data := d\<rparr>)) else d)"
proof -
  obtain a ec1 w1 where m: "jent_measure_jitter E ec w = (a, ec1, w1)"
    by (cases "jent_measure_jitter E ec w")
  have "data (fst (plain_rounds E (gen_rounds E ec) ec1 w1))
          = word_rotl (gen_rounds E ec * TIME_ENTROPY_BITS E) (data ec1)"
    by (rule plain_rounds_zero_data) (rule steady_sample_primed [OF assms(1,2) m])
  then show ?thesis
    using gen_entropy_plain_data [OF assms(3-5) m assms(6)] measure_config [OF m]
    by (simp add: assms(1))
qed

lemma gen_entropy_plain_pass:
  assumes "disable_unbias ec" "gen_rounds E ec < 2 ^ 32" "0 < gen_rounds E ec"
  shows "\<exists>ec'. jent_gen_entropy E ec w =
            Some (ec', w\<lparr>ticks := ticks w + 2 * (gen_rounds E ec + 1),
                         jitters := jitters w + (gen_rounds E ec + 1)\<rparr>) \<and>
          config ec' = config ec"
proof -
  from gen_entropy_plain_jitters [OF assms, of w] obtain ec' where
    g: "jent_gen_entropy E ec w =
            Some (ec', w\<lparr>ticks := ticks w + 2 * (gen_rounds E ec + 1),
                         jitters := jitters w + (gen_rounds E ec + 1)\<rparr>)" by blast
  then show ?thesis using gen_entropy_config [OF g] by blast
qed

lemma gen_entropy_plain_total:
  assumes "disable_unbias ec" "gen_rounds E ec < 2 ^ 32"
  shows "\<exists>ec' w'. jent_gen_entropy E ec w = Some (ec', w')"
proof (cases "gen_rounds E ec = 0")
  case True
  then show ?thesis by (simp add: jent_gen_entropy_def gen_entropy_loop_no_rounds)
next
  case False
  then show ?thesis using gen_entropy_plain_pass [of ec E w] assms by auto
qed

subsection \<open>The FIPS continuous test\<close>

lemma fips_test_prime:
  assumes "fips_enabled E" "\<not> fips_fail ec" "old_data ec = 0"
  shows "jent_fips_test E ec w =
     (case jent_gen_entropy E (ec\<lparr>old_data := data ec\<rparr>) w of
        None \<Rightarrow> None
      | Some (ec1, w1) \<Rightarrow>
          if data ec1 = data ec then Some (- 1, ec1\<lparr>fips_fail := True\<rparr>, w1)
          else Some (0, ec1\<lparr>old_data := data ec1\<rparr>, w1))"
proof (cases "jent_gen_entropy E (ec\<lparr>old_data := data ec\<rparr>) w")
  case None
  then show ?thesis using assms by (simp add: jent_fips_test_def)
next
  case (Some r)
  obtain ec1 w1 where r: "r = (ec1, w1)" by (cases r)
  have "config ec1 = config (ec\<lparr>old_data := data ec\<rparr>)"
    using gen_entropy_config [of E _ w ec1 w1] Some r by simp
  then have "old_data ec1 = data ec" by (simp add: config_def)
  then show ?thesis using assms Some r by (simp add: jent_fips_test_def)
qed

lemma rounds_collector:
  "gen_rounds (platform 1 timer fips secure) (collector d od pt ff st du) = 64"
  by (simp add: gen_rounds_def platform_def collector_def DATA_SIZE_BITS_def)

lemma steady_collector_pass:
  "\<exists>ec' w'. jent_gen_entropy (platform 1 steady_timer fips secure)
                (collector d od pt ff st True) w = Some (ec', w') \<and>
     config ec' = config (collector d od pt ff st True) \<and>
     jitters w' = jitters w + 65 \<and>
     data ec' = (if st then data (jent_stir_pool (platform 1 steady_timer fips secure)
                                   (collector d od pt ff st True))
                 else d)"
proof -
  let ?E = "platform 1 steady_timer fips secure"
  let ?ec = "collector d od pt ff st True"
  have du: "disable_unbias ?ec" by (simp add: collector_def)
  have r: "gen_rounds ?E ?ec = 64" by (rule rounds_collector)
  have r1: "gen_rounds ?E ?ec < 2 ^ 32" and r2: "0 < gen_rounds ?E ?ec" unfolding r by simp_all
  have teb: "TIME_ENTROPY_BITS ?E = 1" and ns: "nstime ?E = steady_timer"
    by (simp_all add: platform_def)
  from gen_entropy_plain_pass [OF du r1 r2, of w] obtain ec' where
    g: "jent_gen_entropy ?E ?ec w =
            Some (ec', w\<lparr>ticks := ticks w + 2 * (gen_rounds ?E ?ec + 1),
                         jitters := jitters w + (gen_rounds ?E ?ec + 1)\<rparr>)"
    and c: "config ec' = config ?ec" by blast
  have "data ec' = (let x = word_rotl (gen_rounds ?E ?ec) (data ?ec)
            in if stir ?ec then data (jent_stir_pool ?E (?ec\<lparr>data := x\<rparr>)) else x)"
    using steady_gen_entropy_data [OF teb ns du r1 r2 g] .
  then have "data ec' = (if st then data (jent_stir_pool ?E ?ec) else d)"
    unfolding r rotl_64 Let_def by (simp add: collector_def)
  then show ?thesis using g c unfolding r by auto
qed

text \<open>
  C2 (as the code has it). When FIPS mode is enabled, \<open>fips_fail\<close> is unset and
  \<open>old_data = 0\<close>, the continuous test stores the pool in \<open>old_data\<close>, runs
  one generation pass and then goes on to the comparison: if the new pool
  equals the stored one it sets \<open>fips_fail\<close> and returns -1, otherwise it
  stores the new pool in \<open>old_data\<close> and returns 0. It returns only if the
  generation pass does.
\<close>

theorem fips_test_priming:
  assumes "fips_enabled E" "\<not> fips_fail ec" "old_data ec = 0"
  shows "jent_fips_test E ec w =
     (case jent_gen_entropy E (ec\<lparr>old_data := data ec\<rparr>) w of
        None \<Rightarrow> None
      | Some (ec1, w1) \<Rightarrow>
          if data ec1 = data ec then Some (- 1, ec1\<lparr>fips_fail := True\<rparr>, w1)
          else Some (0, ec1\<lparr>old_data := data ec1\<rparr>, w1))"
  using assms by (rule fips_test_prime)

lemma stir_5: "stir_mix 0x67452301efcdab89 5 = 0x3e946bc1943ec16b"
  by (simp add: stir_eval)

lemma collector_old_data: "(collector d od pt ff st du)\<lparr>old_data := x\<rparr> = collector d x pt ff st du"
  by (simp add: collector_def)

text \<open>
  With the stir step enabled the pass changes the pool, and priming succeeds.
\<close>

theorem fips_test_priming_witness:
  "fips_enabled (platform 1 steady_timer True False) \<and>
   \<not> fips_fail (collector 5 0 0 False True True) \<and>
   old_data (collector 5 0 0 False True True) = 0 \<and>
   map_option (\<lambda>r. (fst r, old_data (fst (snd r)), fips_fail (fst (snd r))))
     (jent_fips_test (platform 1 steady_timer True False) (collector 5 0 0 False True True) world0)
     = Some (0, 0xA62EB73F840C9518, False)"
proof -
  let ?E = "platform 1 steady_timer True False"
  let ?ec = "collector 5 0 0 False True True"
  have h1: "fips_enabled ?E" by (simp add: platform_def)
  have h2: "\<not> fips_fail ?ec" and h3: "old_data ?ec = 0" by (simp_all add: collector_def)
  from steady_collector_pass [of True False 5 5 0 False True world0] obtain ec' w' where
    g: "jent_gen_entropy ?E (collector 5 5 0 False True True) world0 = Some (ec', w')"
    and c: "config ec' = config (collector 5 5 0 False True True)"
    and d: "data ec' = data (jent_stir_pool ?E (collector 5 5 0 False True True))"
    by auto
  have d': "data ec' = 0xA62EB73F840C9518"
    by (simp add: d stir_pool_data stir_loop_mix platform_def collector_def stir_5)
  have ne: "data ec' \<noteq> data ?ec" by (simp add: d' collector_def)
  have ff: "fips_fail ec' = False" using c by (simp add: config_def collector_def)
  have u: "?ec\<lparr>old_data := data ?ec\<rparr> = collector 5 5 0 False True True"
    by (simp add: collector_def)
  have "jent_fips_test ?E ?ec world0 = Some (0, ec'\<lparr>old_data := data ec'\<rparr>, w')"
    using fips_test_priming [OF h1 h2 h3, of world0] ne unfolding u g by simp
  then show ?thesis
    using h1 h2 h3 d' ff by simp
qed

text \<open>
  On a timer that advances by 3 ns per reading every sample folds to 0; with
  the stir step disabled the 64 rotations by one bit give the pool back, and
  the priming call fails.
\<close>

theorem fips_test_priming_fails:
  "fips_enabled (platform 1 steady_timer True False) \<and>
   \<not> fips_fail (collector 5 0 0 False False True) \<and>
   old_data (collector 5 0 0 False False True) = 0 \<and>
   map_option (\<lambda>r. (fst r, fips_fail (fst (snd r))))
     (jent_fips_test (platform 1 steady_timer True False) (collector 5 0 0 False False True) world0)
     = Some (- 1, True)"
proof -
  let ?E = "platform 1 steady_timer True False"
  let ?ec = "collector 5 0 0 False False True"
  have h1: "fips_enabled ?E" by (simp add: platform_def)
  have h2: "\<not> fips_fail ?ec" and h3: "old_data ?ec = 0" by (simp_all add: collector_def)
  from steady_collector_pass [of True False 5 5 0 False False world0] obtain ec' w' where
    g: "jent_gen_entropy ?E (collector 5 5 0 False False True) world0 = Some (ec', w')"
    and d: "data ec' = 5"
    by auto
  have u: "?ec\<lparr>old_data := data ?ec\<rparr> = collector 5 5 0 False False True"
    by (simp add: collector_def)
  have eq: "data ec' = data ?ec" by (simp add: d collector_def)
  have "jent_fips_test ?E ?ec world0 = Some (- 1, ec'\<lparr>fips_fail := True\<rparr>, w')"
    using fips_test_prime [OF h1 h2 h3, of world0] eq unfolding u g by simp
  then show ?thesis
    using h1 h2 h3 by simp
qed

subsection \<open>Reading entropy\<close>

lemma read_loop_done: "read_loop E ec w buf p 0 = Some (Inr (), ec, w, buf)"
  by (subst read_loop.simps) simp

lemma read_zero:
  "jent_read_entropy E (Some ec) w buf 0 =
     (if secure_memory E then Some (0, Some ec, w, buf)
      else (case jent_gen_entropy E ec w of
              None \<Rightarrow> None
            | Some (ec1, w1) \<Rightarrow> Some (0, Some ec1, w1, buf)))"
  by (simp add: jent_read_entropy_def read_loop_done split: option.splits)

lemma fips_test_failed:
  "fips_enabled E \<Longrightarrow> fips_fail ec \<Longrightarrow> jent_fips_test E ec w = Some (- 1, ec, w)"
  by (simp add: jent_fips_test_def)

lemma read_loop_failed:
  assumes "fips_enabled E" "fips_fail ec" "0 < len"
  shows "read_loop E ec w buf p len =
           (case jent_gen_entropy E ec w of
              None \<Rightarrow> None
            | Some (ec1, w1) \<Rightarrow> Some (Inl (- 1), ec1, w1, buf))"
proof (cases "jent_gen_entropy E ec w")
  case None
  then show ?thesis using assms(3) by (subst read_loop.simps) simp
next
  case (Some r)
  obtain ec1 w1 where r: "r = (ec1, w1)" by (cases r)
  have "config ec1 = config ec" using gen_entropy_config [of E ec w ec1 w1] Some r by simp
  then have "fips_fail ec1" using assms(2) by (simp add: config_def)
  then show ?thesis
    using assms(1,3) Some r
    by (subst read_loop.simps) (simp add: fips_test_failed)
qed

lemma read_failed:
  assumes "fips_enabled E" "fips_fail ec" "0 < len"
  shows "jent_read_entropy E (Some ec) w buf len =
           (case jent_gen_entropy E ec w of
              None \<Rightarrow> None
            | Some (ec1, w1) \<Rightarrow> Some (- 1, Some ec1, w1, buf))"
  by (simp add: jent_read_entropy_def read_loop_failed [OF assms] split: option.splits)

lemma gen_entropy_keeps_fips_fail:
  "fips_fail ec \<Longrightarrow>
   map_option (\<lambda>r. fips_fail (fst r)) (jent_gen_entropy E ec w) \<noteq> Some False"
proof (cases "jent_gen_entropy E ec w")
  case None
  then show ?thesis by simp
next
  case (Some r)
  assume f: "fips_fail ec"
  obtain ec1 w1 where r: "r = (ec1, w1)" by (cases r)
  have "config ec1 = config ec" using gen_entropy_config [of E ec w ec1 w1] Some r by simp
  then show ?thesis using f Some r by (simp add: config_def)
qed

text \<open>
  C3 (as the code has it). Once \<open>fips_fail\<close> is set and FIPS mode is enabled,
  a read of \<open>len > 0\<close> bytes runs one generation pass and returns -1, with the
  buffer untouched and the flag still set; it returns whenever that pass does,
  which is always the case when unbiasing is disabled. (A read of 0 bytes does
  not run the test.)
\<close>

theorem read_after_fips_failure:
  assumes "fips_enabled E" "fips_fail ec" "0 < len"
  shows "jent_read_entropy E (Some ec) w buf len =
           (case jent_gen_entropy E ec w of
              None \<Rightarrow> None
            | Some (ec1, w1) \<Rightarrow> Some (- 1, Some ec1, w1, buf)) \<and>
         map_option (\<lambda>r. fips_fail (fst r)) (jent_gen_entropy E ec w) \<noteq> Some False \<and>
         (disable_unbias ec \<and> gen_rounds E ec < 2 ^ 32 \<longrightarrow>
            map_option (\<lambda>r. (fst r, snd (snd (snd r)))) (jent_read_entropy E (Some ec) w buf len)
              = Some (- 1, buf))"
proof (intro conjI impI)
  show "jent_read_entropy E (Some ec) w buf len =
           (case jent_gen_entropy E ec w of
              None \<Rightarrow> None
            | Some (ec1, w1) \<Rightarrow> Some (- 1, Some ec1, w1, buf))"
    using assms by (rule read_failed)
  show "map_option (\<lambda>r. fips_fail (fst r)) (jent_gen_entropy E ec w) \<noteq> Some False"
    using assms(2) by (rule gen_entropy_keeps_fips_fail)
  assume "disable_unbias ec \<and> gen_rounds E ec < 2 ^ 32"
  then obtain ec' w' where "jent_gen_entropy E ec w = Some (ec', w')"
    using gen_entropy_plain_total [of ec E w] by blast
  then show "map_option (\<lambda>r. (fst r, snd (snd (snd r)))) (jent_read_entropy E (Some ec) w buf len)
              = Some (- 1, buf)"
    by (simp add: read_failed [OF assms])
qed

theorem read_after_fips_failure_witness:
  "fips_enabled (platform 1 square_timer True False) \<and>
   fips_fail (collector 7 3 0 True True True) \<and> (0 :: nat) < 16 \<and>
   disable_unbias (collector 7 3 0 True True True) \<and>
   gen_rounds (platform 1 square_timer True False) (collector 7 3 0 True True True) < 2 ^ 32 \<and>
   map_option (\<lambda>r. (fst r, snd (snd (snd r))))
     (jent_read_entropy (platform 1 square_timer True False)
        (Some (collector 7 3 0 True True True)) world0 (replicate 16 0) 16)
     = Some (- 1, replicate 16 0)"
proof -
  let ?E = "platform 1 square_timer True False"
  let ?ec = "collector 7 3 0 True True True"
  have h1: "fips_enabled ?E" by (simp add: platform_def)
  have h2: "fips_fail ?ec" and h4: "disable_unbias ?ec" by (simp_all add: collector_def)
  have h3: "(0 :: nat) < 16" by simp
  have h5: "gen_rounds ?E ?ec < 2 ^ 32" unfolding rounds_collector by simp
  show ?thesis
    using read_after_fips_failure [OF h1 h2 h3, of world0 "replicate 16 0"] h1 h2 h3 h4 h5
    by blast
qed

text \<open>
  A read of 0 bytes on a collector whose \<open>fips_fail\<close> flag is set returns 0.
\<close>

theorem read_zero_after_fips_failure:
  "fips_enabled (platform 1 square_timer True False) \<and>
   fips_fail (collector 7 3 0 True True True) \<and>
   map_option fst
     (jent_read_entropy (platform 1 square_timer True False)
        (Some (collector 7 3 0 True True True)) world0 [] 0) = Some 0"
proof -
  let ?E = "platform 1 square_timer True False"
  let ?ec = "collector 7 3 0 True True True"
  have h1: "fips_enabled ?E" by (simp add: platform_def)
  have h2: "fips_fail ?ec" and h4: "disable_unbias ?ec" by (simp_all add: collector_def)
  have h5: "gen_rounds ?E ?ec < 2 ^ 32" unfolding rounds_collector by simp
  obtain ec' w' where "jent_gen_entropy ?E ?ec world0 = Some (ec', w')"
    using gen_entropy_plain_total [OF h4 h5, of world0] by blast
  then have "map_option fst (jent_read_entropy ?E (Some ?ec) world0 [] 0) = Some 0"
    by (simp add: read_zero)
  then show ?thesis using h1 h2 by blast
qed

text \<open>
  C10 (as the code has it). For a non-\<^verbatim>\<open>NULL\<close> collector a read of 0 bytes
  does not enter the loop: it copies nothing and does not run the FIPS test,
  whatever \<open>fips_fail\<close> is. With \<^verbatim>\<open>SECURE_MEMORY\<close> it returns 0 at once;
  without, it runs the scrub generation pass and returns 0 if and when that
  pass returns: when the pass does not return, neither does the read. The pass
  returns whenever unbiasing is disabled and its loop bound
  \<open>((64 - 1) / TEB + 1) * osr\<close> is below \<open>2 ^ 32\<close>.
\<close>

theorem read_zero_length:
  "jent_read_entropy E (Some ec) w buf 0 =
     (if secure_memory E then Some (0, Some ec, w, buf)
      else (case jent_gen_entropy E ec w of
              None \<Rightarrow> None
            | Some (ec1, w1) \<Rightarrow> Some (0, Some ec1, w1, buf))) \<and>
   (disable_unbias ec \<and> gen_rounds E ec < 2 ^ 32 \<longrightarrow>
      map_option (\<lambda>r. (fst r, snd (snd (snd r)))) (jent_read_entropy E (Some ec) w buf 0)
        = Some (0, buf))"
proof (intro conjI impI)
  show "jent_read_entropy E (Some ec) w buf 0 =
     (if secure_memory E then Some (0, Some ec, w, buf)
      else (case jent_gen_entropy E ec w of
              None \<Rightarrow> None
            | Some (ec1, w1) \<Rightarrow> Some (0, Some ec1, w1, buf)))"
    by (rule read_zero)
  assume "disable_unbias ec \<and> gen_rounds E ec < 2 ^ 32"
  then obtain ec' w' where "jent_gen_entropy E ec w = Some (ec', w')"
    using gen_entropy_plain_total [of ec E w] by blast
  then show "map_option (\<lambda>r. (fst r, snd (snd (snd r)))) (jent_read_entropy E (Some ec) w buf 0)
        = Some (0, buf)"
    by (simp add: read_zero)
qed

theorem read_zero_length_witness:
  "disable_unbias (collector 9 4 0 True True True) \<and>
   gen_rounds (platform 1 steady_timer True False) (collector 9 4 0 True True True) < 2 ^ 32 \<and>
   fips_fail (collector 9 4 0 True True True) \<and>
   fips_enabled (platform 1 steady_timer True False) \<and>
   \<not> secure_memory (platform 1 steady_timer True False) \<and>
   map_option (\<lambda>r. (fst r, snd (snd (snd r))))
     (jent_read_entropy (platform 1 steady_timer True False)
        (Some (collector 9 4 0 True True True)) world0 [1, 2, 3] 0)
     = Some (0, [1, 2, 3])"
proof -
  let ?E = "platform 1 steady_timer True False"
  let ?ec = "collector 9 4 0 True True True"
  have h1: "fips_enabled ?E" "\<not> secure_memory ?E" by (simp_all add: platform_def)
  have h2: "fips_fail ?ec" and h4: "disable_unbias ?ec" by (simp_all add: collector_def)
  have h5: "gen_rounds ?E ?ec < 2 ^ 32" unfolding rounds_collector by simp
  show ?thesis
    using read_zero_length [of ?E ?ec world0 "[1, 2, 3]"] h1 h2 h4 h5
    by blast
qed

text \<open>
  With unbiasing enabled and a timer that stands still the scrub pass, and so
  the read of 0 bytes, does not return.
\<close>

theorem read_zero_never_returns:
  "jent_read_entropy (platform 1 stuck_timer True False)
     (Some (collector 7 3 0 True True False)) world0 [] 0 = None"
proof -
  let ?E = "platform 1 stuck_timer True False"
  let ?ec = "collector 7 3 0 True True False"
  have t: "\<And>m. nstime ?E m = 42" by (simp add: platform_def stuck_timer_def)
  have d: "\<not> disable_unbias ?ec" by (simp add: collector_def)
  have r: "0 < gen_rounds ?E ?ec" unfolding rounds_collector by simp
  have s: "\<not> secure_memory ?E" by (simp add: platform_def)
  show ?thesis
    using s stuck_gen_entropy [OF t d r, of world0] by (simp add: read_zero)
qed

subsection \<open>Work done by a read of 8 bytes\<close>

lemma plain_pass:
  assumes "disable_unbias ec" "0 < gen_rounds E ec" "gen_rounds E ec < 2 ^ 32"
  shows "\<exists>ec' w'. jent_gen_entropy E ec w = Some (ec', w') \<and>
           jitters w' = jitters w + (gen_rounds E ec + 1) \<and> config ec' = config ec"
  using gen_entropy_plain_pass [OF assms(1,3,2), of w] by auto

lemma config_plain:
  assumes "config ec' = config ec"
  shows "disable_unbias ec' = disable_unbias ec"
    "old_data ec' = old_data ec" "fips_fail ec' = fips_fail ec"
  using assms by (simp_all add: config_def)

lemma fips_test_noprime:
  assumes "\<not> (fips_enabled E \<and> \<not> fips_fail ec \<and> old_data ec = 0)"
  shows "\<exists>ret ec'. jent_fips_test E ec w = Some (ret, ec', w) \<and>
           disable_unbias ec' = disable_unbias ec \<and> osr ec' = osr ec \<and>
           (ret = 0 \<or> ret = - 1) \<and> (fips_enabled E \<and> fips_fail ec \<longrightarrow> ret = - 1) \<and>
           (\<not> fips_enabled E \<longrightarrow> ret = 0)"
proof (cases "fips_enabled E")
  case False
  then show ?thesis by (simp add: jent_fips_test_def)
next
  case True
  show ?thesis
  proof (cases "fips_fail ec")
    case ff: True
    then show ?thesis using True by (simp add: jent_fips_test_def)
  next
    case ff: False
    then have o: "old_data ec \<noteq> 0" using assms True by simp
    show ?thesis
    proof (cases "data ec = old_data ec")
      case eq: True
      have "jent_fips_test E ec w = Some (- 1, ec\<lparr>fips_fail := True\<rparr>, w)"
        using True ff o eq by (simp add: jent_fips_test_def)
      then show ?thesis using True ff by simp
    next
      case ne: False
      have "jent_fips_test E ec w = Some (0, ec\<lparr>old_data := data ec\<rparr>, w)"
        using True ff o ne by (simp add: jent_fips_test_def)
      then show ?thesis using True ff by simp
    qed
  qed
qed

lemma fips_test_prime_plain:
  assumes "disable_unbias ec" "0 < gen_rounds E ec" "gen_rounds E ec < 2 ^ 32"
    and "fips_enabled E" "\<not> fips_fail ec" "old_data ec = 0"
  shows "\<exists>ret ec' w'. jent_fips_test E ec w = Some (ret, ec', w') \<and>
           jitters w' = jitters w + (gen_rounds E ec + 1) \<and>
           disable_unbias ec' = disable_unbias ec \<and> osr ec' = osr ec \<and>
           (ret = 0 \<or> ret = - 1)"
proof -
  let ?ec = "ec\<lparr>old_data := data ec\<rparr>"
  have r: "gen_rounds E ?ec = gen_rounds E ec" by (simp add: gen_rounds_def)
  have p: "disable_unbias ?ec" "0 < gen_rounds E ?ec" "gen_rounds E ?ec < 2 ^ 32"
    using assms(1-3) unfolding r by simp_all
  from plain_pass [OF p, of w] obtain ec1 w1 where
    g: "jent_gen_entropy E ?ec w = Some (ec1, w1)"
    and j: "jitters w1 = jitters w + (gen_rounds E ?ec + 1)"
    and c: "config ec1 = config ?ec" by blast
  have d1: "disable_unbias ec1 = disable_unbias ec" "osr ec1 = osr ec"
    using c by (simp_all add: config_def)
  have t: "jent_fips_test E ec w =
      (if data ec1 = data ec then Some (- 1, ec1\<lparr>fips_fail := True\<rparr>, w1)
       else Some (0, ec1\<lparr>old_data := data ec1\<rparr>, w1))"
    using fips_test_prime [OF assms(4-6), of w] unfolding g by simp
  show ?thesis
  proof (cases "data ec1 = data ec")
    case True
    then have "jent_fips_test E ec w = Some (- 1, ec1\<lparr>fips_fail := True\<rparr>, w1)"
      using t by simp
    then show ?thesis using j d1 unfolding r by simp
  next
    case False
    then have "jent_fips_test E ec w = Some (0, ec1\<lparr>old_data := data ec1\<rparr>, w1)"
      using t by simp
    then show ?thesis using j d1 unfolding r by simp
  qed
qed

lemma read_loop_8:
  "read_loop E ec w buf 0 8 =
     (case jent_gen_entropy E ec w of
        None \<Rightarrow> None
      | Some (ec1, w1) \<Rightarrow>
         (case jent_fips_test E ec1 w1 of
            None \<Rightarrow> None
          | Some (ret, ec2, w2) \<Rightarrow>
              if 0 > ret then Some (Inl ret, ec2, w2, buf)
              else Some (Inr (), ec2, w2,
                         memcpy buf 0 (u64_bytes (big_endian E) (data ec2)) 8)))"
  by (subst read_loop.simps)
    (simp add: DATA_SIZE_BITS_def read_loop_done split: option.splits prod.splits)

lemma fips_test_plain:
  assumes "disable_unbias ec" "0 < gen_rounds E ec" "gen_rounds E ec < 2 ^ 32"
  shows "\<exists>ret ec' w'. jent_fips_test E ec w = Some (ret, ec', w') \<and>
           jitters w' = jitters w +
             (if fips_enabled E \<and> \<not> fips_fail ec \<and> old_data ec = 0 then 1 else 0)
               * (gen_rounds E ec + 1) \<and>
           disable_unbias ec' = disable_unbias ec \<and> osr ec' = osr ec \<and>
           (ret = 0 \<or> ret = - 1) \<and> (fips_enabled E \<and> fips_fail ec \<longrightarrow> ret = - 1) \<and>
           (\<not> fips_enabled E \<longrightarrow> ret = 0)"
proof (cases "fips_enabled E \<and> \<not> fips_fail ec \<and> old_data ec = 0")
  case True
  then have h: "fips_enabled E" "\<not> fips_fail ec" "old_data ec = 0" by simp_all
  from fips_test_prime_plain [OF assms h, of w] obtain ret ec' w' where
    "jent_fips_test E ec w = Some (ret, ec', w')"
    "jitters w' = jitters w + (gen_rounds E ec + 1)"
    "disable_unbias ec' = disable_unbias ec" "osr ec' = osr ec" "ret = 0 \<or> ret = - 1"
    by blast
  then show ?thesis using True by (intro exI [of _ ret] exI [of _ ec'] exI [of _ w']) simp
next
  case False
  from fips_test_noprime [OF False, of w] obtain ret ec' where
    "jent_fips_test E ec w = Some (ret, ec', w)"
    "disable_unbias ec' = disable_unbias ec" "osr ec' = osr ec" "ret = 0 \<or> ret = - 1"
    "fips_enabled E \<and> fips_fail ec \<longrightarrow> ret = - 1" "\<not> fips_enabled E \<longrightarrow> ret = 0"
    by blast
  then show ?thesis using False by (intro exI [of _ ret] exI [of _ ec'] exI [of _ w]) simp
qed

lemma sint_8: "sint (word_of_nat 8 :: 32 word) = 8"
  by simp

lemma read_returned:
  "read_loop E ec w buf 0 len = Some (Inl ret, ec1, w1, buf1) \<Longrightarrow>
   jent_read_entropy E (Some ec) w buf len = Some (ret, Some ec1, w1, buf1)"
  by (simp add: jent_read_entropy_def)

lemma read_served_secure:
  "read_loop E ec w buf 0 len = Some (Inr (), ec1, w1, buf1) \<Longrightarrow> secure_memory E \<Longrightarrow>
   jent_read_entropy E (Some ec) w buf len =
     Some (sint (word_of_nat len :: 32 word), Some ec1, w1, buf1)"
  by (simp add: jent_read_entropy_def)

lemma read_served_scrub:
  "read_loop E ec w buf 0 len = Some (Inr (), ec1, w1, buf1) \<Longrightarrow> \<not> secure_memory E \<Longrightarrow>
   jent_gen_entropy E ec1 w1 = Some (ec2, w2) \<Longrightarrow>
   jent_read_entropy E (Some ec) w buf len =
     Some (sint (word_of_nat len :: 32 word), Some ec2, w2, buf1)"
  by (simp add: jent_read_entropy_def)

lemma read8_plain:
  assumes "disable_unbias ec" "0 < gen_rounds E ec" "gen_rounds E ec < 2 ^ 32"
  shows "\<exists>ret ecp w' buf'.
           jent_read_entropy E (Some ec) w buf 8 = Some (ret, ecp, w', buf') \<and>
           (ret = 8 \<or> ret = - 1) \<and>
           (\<not> fips_enabled E \<longrightarrow> ret = 8) \<and>
           (ret = 8 \<longrightarrow> jitters w' = jitters w +
               (1 + (if fips_enabled E \<and> old_data ec = 0 then 1 else 0)
                  + (if secure_memory E then 0 else 1)) * (gen_rounds E ec + 1))"
proof -
  let ?r = "gen_rounds E ec"
  let ?k = "if fips_enabled E \<and> old_data ec = 0 then 1 else (0 :: nat)"
  from plain_pass [OF assms, of w] obtain ec1 w1 where
    g1: "jent_gen_entropy E ec w = Some (ec1, w1)"
    and j1: "jitters w1 = jitters w + (?r + 1)"
    and c1: "config ec1 = config ec" by blast
  have e1: "gen_rounds E ec1 = ?r" "old_data ec1 = old_data ec" "fips_fail ec1 = fips_fail ec"
    "disable_unbias ec1 = disable_unbias ec"
    using config_plain [OF c1] gen_rounds_config [OF c1, of E] by simp_all
  have p1: "disable_unbias ec1" "0 < gen_rounds E ec1" "gen_rounds E ec1 < 2 ^ 32"
    using e1 assms by simp_all
  from fips_test_plain [OF p1, of w1] obtain ret ec2 w2 where
    f: "jent_fips_test E ec1 w1 = Some (ret, ec2, w2)"
    and j2: "jitters w2 = jitters w1 +
           (if fips_enabled E \<and> \<not> fips_fail ec1 \<and> old_data ec1 = 0 then 1 else 0)
             * (gen_rounds E ec1 + 1)"
    and d2: "disable_unbias ec2 = disable_unbias ec1" and o2: "osr ec2 = osr ec1"
    and r: "ret = 0 \<or> ret = - 1"
    and rf: "fips_enabled E \<and> fips_fail ec1 \<longrightarrow> ret = - 1"
    and rn: "\<not> fips_enabled E \<longrightarrow> ret = 0" by blast
  have r2: "gen_rounds E ec2 = ?r" using o2 e1(1) by (simp add: gen_rounds_def)
  let ?buf = "memcpy buf 0 (u64_bytes (big_endian E) (data ec2)) 8"
  show ?thesis
  proof (cases "ret = 0")
    case False
    then have m: "ret = - 1" using r by simp
    then have fe: "fips_enabled E" using rn by auto
    have "read_loop E ec w buf 0 8 = Some (Inl (- 1), ec2, w2, buf)"
      using m by (simp add: read_loop_8 g1 f)
    then have "jent_read_entropy E (Some ec) w buf 8 = Some (- 1, Some ec2, w2, buf)"
      by (rule read_returned)
    then show ?thesis using fe by simp
  next
    case True
    have nf: "\<not> (fips_enabled E \<and> fips_fail ec)"
      using rf True e1 by auto
    have j2': "jitters w2 = jitters w + (1 + ?k) * (?r + 1)"
    proof (cases "fips_enabled E \<and> old_data ec = 0")
      case True
      then show ?thesis using j1 j2 nf e1 by simp
    next
      case False
      then show ?thesis using j1 j2 e1 by auto
    qed
    have l: "read_loop E ec w buf 0 8 = Some (Inr (), ec2, w2, ?buf)"
      using True by (simp add: read_loop_8 g1 f)
    show ?thesis
    proof (cases "secure_memory E")
      case s: True
      have "jent_read_entropy E (Some ec) w buf 8 = Some (8, Some ec2, w2, ?buf)"
        using read_served_secure [OF l s] by (simp only: sint_8)
      then show ?thesis using j2' s by simp
    next
      case s: False
      have p2: "disable_unbias ec2" "0 < gen_rounds E ec2" "gen_rounds E ec2 < 2 ^ 32"
        using d2 p1 r2 assms by simp_all
      from plain_pass [OF p2, of w2] obtain ec3 w3 where
        g3: "jent_gen_entropy E ec2 w2 = Some (ec3, w3)"
        and j3: "jitters w3 = jitters w2 + (gen_rounds E ec2 + 1)" by blast
      have t: "jent_read_entropy E (Some ec) w buf 8 = Some (8, Some ec3, w3, ?buf)"
        using read_served_scrub [OF l s g3] by (simp only: sint_8)
      have "jitters w3 = jitters w + (1 + ?k + 1) * (?r + 1)"
        using j3 j2' r2 by (simp add: algebra_simps)
      then show ?thesis using t s by simp
    qed
  qed
qed

text \<open>
  C8 (as the code has it). With unbiasing disabled, an oversampling rate \<open>k\<close>
  and \<open>0 < k * ceil(64 / TEB) < 2 ^ 32\<close>, a successful read of 8 bytes performs
  exactly \<open>P * (k * ceil(64 / TEB) + 1)\<close> jitter measurements, where \<open>P\<close> counts
  the generation passes of the call: one for the output, one more when the
  FIPS test primes itself (FIPS mode enabled and \<open>old_data = 0\<close>), and one more
  for the scrub pass unless \<^verbatim>\<open>SECURE_MEMORY\<close> is configured.
\<close>

theorem read8_jitter_count:
  assumes "disable_unbias ec" "0 < gen_rounds E ec" "gen_rounds E ec < 2 ^ 32"
    and "map_option fst (jent_read_entropy E (Some ec) w buf 8) = Some 8"
  shows "map_option (\<lambda>r. jitters (fst (snd (snd r)))) (jent_read_entropy E (Some ec) w buf 8) =
           Some (jitters w +
             (1 + (if fips_enabled E \<and> old_data ec = 0 then 1 else 0)
                + (if secure_memory E then 0 else 1))
             * (unat (osr ec) * ((DATA_SIZE_BITS - 1) div TIME_ENTROPY_BITS E + 1) + 1))"
proof -
  from read8_plain [OF assms(1-3), of w buf] obtain ret ecp0 w0 buf0 where
    a: "jent_read_entropy E (Some ec) w buf 8 = Some (ret, ecp0, w0, buf0)"
    and b: "ret = 8 \<longrightarrow> jitters w0 = jitters w +
           (1 + (if fips_enabled E \<and> old_data ec = 0 then 1 else 0)
              + (if secure_memory E then 0 else 1)) * (gen_rounds E ec + 1)" by blast
  have "ret = 8" using assms(4) a by simp
  then show ?thesis using a b by (simp add: gen_rounds_def mult.commute)
qed

text \<open>
  With \<^verbatim>\<open>SECURE_MEMORY\<close> and without FIPS mode the read is a single pass of
  \<open>64 + 1\<close> measurements.
\<close>

theorem read8_jitter_count_witness:
  "disable_unbias (collector 0 0 0 False True True) \<and>
   0 < gen_rounds (platform 1 square_timer False True) (collector 0 0 0 False True True) \<and>
   gen_rounds (platform 1 square_timer False True) (collector 0 0 0 False True True) < 2 ^ 32 \<and>
   map_option fst
     (jent_read_entropy (platform 1 square_timer False True)
        (Some (collector 0 0 0 False True True)) world0 (replicate 8 0) 8) = Some 8 \<and>
   map_option (\<lambda>r. jitters (fst (snd (snd r))))
     (jent_read_entropy (platform 1 square_timer False True)
        (Some (collector 0 0 0 False True True)) world0 (replicate 8 0) 8) = Some 65"
proof -
  let ?E = "platform 1 square_timer False True"
  let ?ec = "collector 0 0 0 False True True"
  have h1: "disable_unbias ?ec" by (simp add: collector_def)
  have r: "gen_rounds ?E ?ec = 64" by (rule rounds_collector)
  have h2: "0 < gen_rounds ?E ?ec" and h3: "gen_rounds ?E ?ec < 2 ^ 32" unfolding r by simp_all
  have nf: "\<not> fips_enabled ?E" and sm: "secure_memory ?E" by (simp_all add: platform_def)
  from read8_plain [OF h1 h2 h3, of world0 "replicate 8 0"] nf
  have h4: "map_option fst (jent_read_entropy ?E (Some ?ec) world0 (replicate 8 0) 8) = Some 8"
    by auto
  have o: "unat (osr ?ec) * ((DATA_SIZE_BITS - 1) div TIME_ENTROPY_BITS ?E + 1) + 1 = 65"
    using r by (simp add: gen_rounds_def mult.commute)
  have "map_option (\<lambda>r. jitters (fst (snd (snd r))))
          (jent_read_entropy ?E (Some ?ec) world0 (replicate 8 0) 8) = Some 65"
    using read8_jitter_count [OF h1 h2 h3 h4] nf sm unfolding o by (simp add: world0_def)
  then show ?thesis using h1 h2 h3 h4 by blast
qed

text \<open>
  In the default build (no \<^verbatim>\<open>SECURE_MEMORY\<close>) the same read runs the scrub
  pass as well: 130 measurements, not 65.
\<close>

theorem read8_two_passes:
  "unat (osr (collector 0 0 0 False True True))
     * ((DATA_SIZE_BITS - 1) div TIME_ENTROPY_BITS (platform 1 square_timer False False) + 1) + 1
     = 65 \<and>
   map_option (\<lambda>r. (fst r, jitters (fst (snd (snd r)))))
     (jent_read_entropy (platform 1 square_timer False False)
        (Some (collector 0 0 0 False True True)) world0 (replicate 8 0) 8) = Some (8, 130)"
proof -
  let ?E = "platform 1 square_timer False False"
  let ?ec = "collector 0 0 0 False True True"
  have h1: "disable_unbias ?ec" by (simp add: collector_def)
  have r: "gen_rounds ?E ?ec = 64" by (rule rounds_collector)
  have h2: "0 < gen_rounds ?E ?ec" and h3: "gen_rounds ?E ?ec < 2 ^ 32" unfolding r by simp_all
  have nf: "\<not> fips_enabled ?E" and sm: "\<not> secure_memory ?E" by (simp_all add: platform_def)
  have o: "unat (osr ?ec) * ((DATA_SIZE_BITS - 1) div TIME_ENTROPY_BITS ?E + 1) + 1 = 65"
    using r by (simp add: gen_rounds_def mult.commute)
  from read8_plain [OF h1 h2 h3, of world0 "replicate 8 0"] obtain ret ecp w' buf' where
    a: "jent_read_entropy ?E (Some ?ec) world0 (replicate 8 0) 8 = Some (ret, ecp, w', buf')"
    and b: "\<not> fips_enabled ?E \<longrightarrow> ret = 8"
    and c: "ret = 8 \<longrightarrow> jitters w' = jitters world0 +
               (1 + (if fips_enabled ?E \<and> old_data ?ec = 0 then 1 else 0)
                  + (if secure_memory ?E then 0 else 1)) * (gen_rounds ?E ?ec + 1)" by blast
  have "ret = 8" using b nf by simp
  moreover have "jitters w' = 130" using c \<open>ret = 8\<close> nf sm unfolding r by (simp add: world0_def)
  ultimately have "map_option (\<lambda>r. (fst r, jitters (fst (snd (snd r)))))
     (jent_read_entropy ?E (Some ?ec) world0 (replicate 8 0) 8) = Some (8, 130)"
    using a by simp
  then show ?thesis using o by blast
qed

subsection \<open>The start-up health test\<close>

lemma init_body_eq:
  "init_body E i v w =
     (let time = nstime E (ticks w); time2 = nstime E (ticks w + 2);
          w3 = w\<lparr>ticks := ticks w + 3\<rparr>
      in if time = 0 \<or> time2 = 0 then (Inl ENOTIME, w3)
         else
           (let delta = time2 - time
            in if delta = 0 then (Inl ECOARSETIME, w3)
               else if word_of_nat (TIME_ENTROPY_BITS E) > delta then (Inl EMINVARIATION, w3)
               else if CLEARCACHE > i then (Inr v, w3)
               else
                 (let v1 = (if \<not> (time2 > time)
                            then v\<lparr>time_backwards := time_backwards v + 1\<rparr> else v);
                      v2 = (if delta mod 100 = 0
                            then v1\<lparr>count_mod := count_mod v1 + 1\<rparr> else v1);
                      v3 = (if i \<noteq> 0
                            then
                              (let v' = (if delta \<noteq> old_delta v2
                                         then v2\<lparr>count_var := count_var v2 + 1\<rparr> else v2)
                               in if delta > old_delta v'
                                  then v'\<lparr>delta_sum := delta_sum v' + (delta - old_delta v')\<rparr>
                                  else v'\<lparr>delta_sum := delta_sum v' + (old_delta v' - delta)\<rparr>)
                            else v2)
                  in (Inr (v3\<lparr>old_delta := delta\<rparr>), w3))))"
  by (simp add: init_body_def jent_get_nstime_def jent_fold_time_eq Let_def
      numeral_3_eq_3 numeral_2_eq_2)

lemma init_body_errors:
  "fst (init_body E i v w) \<noteq> Inl EMINVARVAR \<and> fst (init_body E i v w) \<noteq> Inl EVARVAR \<and>
   fst (init_body E i v w) \<noteq> Inl ENOMONOTONIC"
  by (simp add: init_body_eq Let_def)

lemma init_loop_errors:
  "fst (init_loop E i v w) \<noteq> Inl EMINVARVAR"
proof (induction E i v w rule: init_loop.induct)
  case (1 E i v w)
  show ?case
  proof (cases "TESTLOOPCOUNT + CLEARCACHE > i")
    case False
    then show ?thesis by (subst init_loop.simps) simp
  next
    case True
    obtain r w1 where b: "init_body E i v w = (r, w1)" by (cases "init_body E i v w")
    show ?thesis
    proof (cases r)
      case (Inl e)
      have "e \<noteq> EMINVARVAR" using init_body_errors [of E i v w] b Inl by simp
      then show ?thesis using True b Inl by (subst init_loop.simps) simp
    next
      case (Inr v1)
      have "fst (init_loop E (i + 1) v1 w1) \<noteq> Inl EMINVARVAR"
        using 1 [OF True] b Inr by simp
      then show ?thesis using True b Inr by (subst init_loop.simps) simp
    qed
  qed
qed

lemma init_checks_never_minvarvar:
  "0 < TIME_ENTROPY_BITS E \<Longrightarrow> init_checks E v \<noteq> Inl EMINVARVAR"
  by (simp add: init_checks_def)

lemma init_never_minvarvar:
  assumes "0 < TIME_ENTROPY_BITS E"
  shows "fst (jent_entropy_init E w) \<noteq> Inl EMINVARVAR"
proof -
  obtain r w1 where l: "init_loop E 0 init_vars0 w = (r, w1)"
    by (cases "init_loop E 0 init_vars0 w")
  show ?thesis
  proof (cases r)
    case (Inl e)
    then show ?thesis using init_loop_errors [of E 0 init_vars0 w] l
      by (simp add: jent_entropy_init_def)
  next
    case (Inr v)
    then show ?thesis using init_checks_never_minvarvar [OF assms, of v] l
      by (simp add: jent_entropy_init_def)
  qed
qed

lemma init_body_warmup:
  "i < CLEARCACHE \<Longrightarrow> fst (init_body E i v w) = Inr v' \<Longrightarrow> v' = v"
  by (simp add: init_body_eq Let_def split: if_splits)

lemma init_first_measured:
  "init_body (platform 1 wobble_timer False False) 100 init_vars0 \<lparr>ticks = 300, jitters = 0\<rparr>
     = (Inr \<lparr>delta_sum = 9, old_delta = 9, time_backwards = 0, count_var = 1, count_mod = 0\<rparr>,
        \<lparr>ticks = 303, jitters = 0\<rparr>)"
  by (simp add: init_body_eq platform_def wobble_timer_def init_vars0_def CLEARCACHE_def Let_def)

lemma init_wobble_loop:
  "init_loop (platform 1 wobble_timer False False) 0 init_vars0 world0
     = (Inr \<lparr>delta_sum = 308, old_delta = 8, time_backwards = 0, count_var = 300, count_mod = 0\<rparr>,
        \<lparr>ticks = 1200, jitters = 0\<rparr>)"
  by (simp add: init_loop.simps init_body_eq platform_def wobble_timer_def init_vars0_def
      world0_def CLEARCACHE_def TESTLOOPCOUNT_def Let_def)

text \<open>
  C1: the claim is that the start-up test returns \<open>EMINVARVAR\<close> unless
  \<open>delta_sum / TESTLOOPCOUNT\<close> exceeds \<open>TIME_ENTROPY_BITS\<close>. The code does not:
  on a timer whose measured time spans are 9 ns and 8 ns in turn every
  iteration passes its checks, the loop ends with \<open>delta_sum = 308\<close>, so that
  \<open>delta_sum / 300 = 1\<close> does not exceed \<open>TIME_ENTROPY_BITS = 1\<close>, and the test
  returns 0. (By \<open>init_never_minvarvar\<close> it never returns \<open>EMINVARVAR\<close> in a
  build with \<open>TIME_ENTROPY_BITS \<ge> 1\<close>.)
\<close>

theorem init_accepts_low_variation:
  "init_loop (platform 1 wobble_timer False False) 0 init_vars0 world0
     = (Inr \<lparr>delta_sum = 308, old_delta = 8, time_backwards = 0, count_var = 300, count_mod = 0\<rparr>,
        \<lparr>ticks = 1200, jitters = 0\<rparr>) \<and>
   unat (308 div word_of_nat TESTLOOPCOUNT :: u64)
     \<le> TIME_ENTROPY_BITS (platform 1 wobble_timer False False) \<and>
   jent_entropy_init (platform 1 wobble_timer False False) world0
     = (Inr (), \<lparr>ticks = 1200, jitters = 0\<rparr>)"
proof -
  let ?E = "platform 1 wobble_timer False False"
  have d: "unat (308 div word_of_nat TESTLOOPCOUNT :: u64) \<le> TIME_ENTROPY_BITS ?E"
    by (simp add: TESTLOOPCOUNT_def platform_def)
  have "jent_entropy_init ?E world0 = (Inr (), \<lparr>ticks = 1200, jitters = 0\<rparr>)"
    unfolding jent_entropy_init_def init_wobble_loop
    by (simp add: init_checks_def TESTLOOPCOUNT_def platform_def)
  then show ?thesis using init_wobble_loop d by blast
qed

text \<open>
  C9: the claim is that nothing is added to \<open>delta_sum\<close> and \<open>count_var\<close> on
  the first measured iteration, \<open>i = CLEARCACHE\<close>. The code tests \<^verbatim>\<open>if (i)\<close>:
  on that iteration, entered with the variables still at their initial values,
  it counts the time span of 9 ns against \<open>old_delta = 0\<close> and leaves
  \<open>delta_sum = 9\<close> and \<open>count_var = 1\<close>.
\<close>

theorem init_counts_first_measured_iteration:
  "CLEARCACHE = 100 \<and>
   init_body (platform 1 wobble_timer False False) CLEARCACHE init_vars0
       \<lparr>ticks = 3 * CLEARCACHE, jitters = 0\<rparr>
     = (Inr \<lparr>delta_sum = 9, old_delta = 9, time_backwards = 0, count_var = 1, count_mod = 0\<rparr>,
        \<lparr>ticks = 303, jitters = 0\<rparr>)"
  using init_first_measured by (simp add: CLEARCACHE_def)


end
